theory Spec2Isabelle
  imports Main "HOL-Library.Sublist"
begin

section \<open>JavaScript strings and numbers\<close>

text \<open>
  A JavaScript string is modelled as a \<^typ>\<open>string\<close>, one \<^typ>\<open>char\<close> per code unit
  (code units below 256 only). The content of a file is modelled by its bytes, one
  \<^typ>\<open>char\<close> per byte.

  A number that holds a cursor is a double with a whole value, modelled as the integer of
  that value; an integer that no double has is not a value of the program. \<open>plus1 x\<close> is
  \<^verbatim>\<open>x + 1\<close> on such a double: the sum is exact as long as it is at most \<open>2^53\<close> in
  magnitude. Beyond, the doubles are 2 apart up to \<open>2^54\<close>, where \<^verbatim>\<open>x + 1\<close> lies half
  way between \<open>x\<close> and \<open>x + 2\<close> and is rounded to the one with the even significand (the
  multiple of 4), and at least 4 apart from there on, where \<^verbatim>\<open>x + 1\<close> is rounded back to
  \<open>x\<close>. Lengths, counts of blocks and sizes of files are natural numbers.
\<close>

definition plus1 :: "int \<Rightarrow> int" where
  "plus1 x =
     (if - (2 ^ 53) \<le> x \<and> x < 2 ^ 53 then x + 1
      else if x mod 4 = 0 then x
      else x + 2)"

definition nl :: char where
  "nl = CHR 0x0A"

text \<open>\<^verbatim>\<open>Array.prototype.join\<close>.\<close>

fun join :: "string \<Rightarrow> string list \<Rightarrow> string" where
  "join sep [] = []"
| "join sep [x] = x"
| "join sep (x # y # ys) = x @ sep @ join sep (y # ys)"

text \<open>
  \<^verbatim>\<open>String.prototype.trim\<close> removes white space and line terminators from both
  ends; among the code units below 256 these are TAB, LF, VT, FF, CR, space and NBSP.
\<close>

definition isWhiteSpace :: "char \<Rightarrow> bool" where
  "isWhiteSpace c = (c \<in> set [CHR 0x09, CHR 0x0A, CHR 0x0B, CHR 0x0C, CHR 0x0D, CHR 0x20, CHR 0xA0])"

definition trim :: "string \<Rightarrow> string" where
  "trim s = rev (dropWhile isWhiteSpace (rev (dropWhile isWhiteSpace s)))"

text \<open>\<^verbatim>\<open>String.prototype.startsWith\<close>.\<close>

fun startsWith :: "string \<Rightarrow> string \<Rightarrow> bool" where
  "startsWith s [] = True"
| "startsWith [] (p # ps) = False"
| "startsWith (c # cs) (p # ps) = (c = p \<and> startsWith cs ps)"

text \<open>\<^verbatim>\<open>s.split('\n')\<close>: the pieces between line feeds, always at least one piece.\<close>

fun split_nl :: "string \<Rightarrow> string list" where
  "split_nl [] = [[]]"
| "split_nl (c # cs) =
     (if c = nl then [] # split_nl cs
      else (case split_nl cs of [] \<Rightarrow> [[c]] | l # ls \<Rightarrow> (c # l) # ls))"

text \<open>\<^verbatim>\<open>s.slice(0, n)\<close> and \<^verbatim>\<open>s.slice(s.length - n)\<close> for a count \<open>n \<ge> 0\<close>.\<close>

definition slice_to :: "nat \<Rightarrow> string \<Rightarrow> string" where
  "slice_to n s = take n s"

definition slice_last :: "nat \<Rightarrow> 'a list \<Rightarrow> 'a list" where
  "slice_last n s = drop (length s - n) s"

section \<open>SSE framing\<close>

text \<open>
  \<^verbatim>\<open>formatSSE(eventType, cursor, data)\<close> of \<^verbatim>\<open>lib/codex-stream.js\<close>. The third argument
  of the model is the text \<^verbatim>\<open>JSON.stringify(data)\<close>; \<open>cursor\<close> is the text the template
  literal puts for it.
\<close>

definition formatSSE :: "string \<Rightarrow> string \<Rightarrow> string \<Rightarrow> string" where
  "formatSSE eventType cursor data_json =
     (let lines = [];
          lines = lines @ [''id: '' @ cursor];
          lines = lines @ [''event: '' @ eventType];
          lines = lines @ [''data: '' @ data_json];
          lines = lines @ [''''];
          lines = lines @ ['''']
      in join [nl] lines)"

section \<open>PTY history buffer\<close>

text \<open>
  The \<^verbatim>\<open>ptyProcess.onData\<close> handler of \<^verbatim>\<open>getSession\<close>, as far as the history is
  concerned. \<open>HISTORY_LIMIT\<close> is a configuration constant, a non-negative whole number
  (200000 unless the environment overrides it).
\<close>

definition onData :: "nat \<Rightarrow> string \<Rightarrow> string \<Rightarrow> string" where
  "onData HISTORY_LIMIT history data =
     (let history = history @ data
      in if length history > HISTORY_LIMIT
         then drop (length history - HISTORY_LIMIT) history
         else history)"

text \<open>The history after the chunks of a whole run, starting from the empty buffer of a spawn.\<close>

definition history_after :: "nat \<Rightarrow> string list \<Rightarrow> string" where
  "history_after HISTORY_LIMIT chunks = foldl (onData HISTORY_LIMIT) [] chunks"

section \<open>Session identifiers\<close>

text \<open>
  A regular expression is embedded as a function that consumes a prefix of its input and
  returns the rest, or fails. The patterns used here are built from character classes,
  literals, sequences and exact repetitions, each of which matches strings of one length
  only, so that consuming a prefix is deterministic.
\<close>

type_synonym matcher = "string \<Rightarrow> string option"

text \<open>The ASCII letters and their lower-case forms, for the \<^verbatim>\<open>i\<close> flag.\<close>

definition toLower :: "char \<Rightarrow> char" where
  "toLower c =
     (case map_of (zip ''ABCDEFGHIJKLMNOPQRSTUVWXYZ'' ''abcdefghijklmnopqrstuvwxyz'') c of
        None \<Rightarrow> c | Some l \<Rightarrow> l)"

text \<open>A character class \<^verbatim>\<open>[...]\<close>; \<open>ignoreCase\<close> is the \<^verbatim>\<open>i\<close> flag of the pattern.\<close>

definition rx_class :: "bool \<Rightarrow> string \<Rightarrow> matcher" where
  "rx_class ignoreCase cs s =
     (case s of
        [] \<Rightarrow> None
      | c # rest \<Rightarrow>
          if c \<in> set cs \<or> (ignoreCase \<and> toLower c \<in> set (map toLower cs))
          then Some rest else None)"

definition rx_seq :: "matcher \<Rightarrow> matcher \<Rightarrow> matcher" where
  "rx_seq a b s = (case a s of None \<Rightarrow> None | Some rest \<Rightarrow> b rest)"

definition rx_empty :: matcher where
  "rx_empty s = Some s"

text \<open>\<^verbatim>\<open>a{n}\<close>.\<close>

primrec rx_rep :: "nat \<Rightarrow> matcher \<Rightarrow> matcher" where
  "rx_rep 0 a = rx_empty"
| "rx_rep (Suc n) a = rx_seq a (rx_rep n a)"

definition rx_seqs :: "matcher list \<Rightarrow> matcher" where
  "rx_seqs ms = foldr rx_seq ms rx_empty"

text \<open>\<^verbatim>\<open>/^...$/.test(s)\<close>: the pattern consumes the whole input.\<close>

definition rx_test :: "matcher \<Rightarrow> string \<Rightarrow> bool" where
  "rx_test p s = (p s = Some [])"

text \<open>\<^verbatim>\<open>[a-f0-9]\<close> and \<^verbatim>\<open>-\<close>.\<close>

definition hex :: "bool \<Rightarrow> matcher" where
  "hex ignoreCase = rx_class ignoreCase ''abcdef0123456789''"

definition dash :: "bool \<Rightarrow> matcher" where
  "dash ignoreCase = rx_class ignoreCase ''-''"

text \<open>
  \<^verbatim>\<open>const UUID_PATTERN = /^[a-f0-9]{8}-[a-f0-9]{4}-[a-f0-9]{4}-[a-f0-9]{4}-[a-f0-9]{12}$/i;\<close>
\<close>

definition UUID_PATTERN :: matcher where
  "UUID_PATTERN =
     rx_seqs [rx_rep 8 (hex True), dash True, rx_rep 4 (hex True), dash True,
              rx_rep 4 (hex True), dash True, rx_rep 4 (hex True), dash True,
              rx_rep 12 (hex True)]"

text \<open>
  The pattern as the specification writes it,
  \<^verbatim>\<open>^[a-f0-9]{8}-([a-f0-9]{4}-){3}[a-f0-9]{12}$\<close>, with the case sensitivity as a
  parameter: the specification's own pattern is \<open>spec_uuid_pattern False\<close>.
\<close>

definition spec_uuid_pattern :: "bool \<Rightarrow> matcher" where
  "spec_uuid_pattern ignoreCase =
     rx_seqs [rx_rep 8 (hex ignoreCase), dash ignoreCase,
              rx_rep 3 (rx_seqs [rx_rep 4 (hex ignoreCase), dash ignoreCase]),
              rx_rep 12 (hex ignoreCase)]"

datatype error = INVALID_SESSION_ID | SESSION_NOT_FOUND

definition validateSessionId :: "string \<Rightarrow> error + unit" where
  "validateSessionId sessionId =
     (if \<not> rx_test UUID_PATTERN sessionId then Inl INVALID_SESSION_ID else Inr ())"

text \<open>The directories; \<open>~\<close> stands for \<^verbatim>\<open>os.homedir()\<close>.\<close>

definition CODEX_GATEWAY_DIR :: string where
  "CODEX_GATEWAY_DIR = ''~/.claude-gateway''"

definition CODEX_SESSIONS_DIR :: string where
  "CODEX_SESSIONS_DIR = CODEX_GATEWAY_DIR @ ''/codex-sessions''"

definition CODEX_EVENTS_DIR :: string where
  "CODEX_EVENTS_DIR = CODEX_GATEWAY_DIR @ ''/codex-events''"

record session_paths =
  metaPath :: string
  jsonlPath :: string

definition getSessionPaths :: "string \<Rightarrow> error + session_paths" where
  "getSessionPaths sessionId =
     (case validateSessionId sessionId of
        Inl e \<Rightarrow> Inl e
      | Inr _ \<Rightarrow>
          Inr \<lparr>metaPath = CODEX_SESSIONS_DIR @ ''/'' @ sessionId @ ''.json'',
               jsonlPath = CODEX_EVENTS_DIR @ ''/'' @ sessionId @ ''.jsonl''\<rparr>)"

section \<open>The journal and its sidecar\<close>

text \<open>
  The sidecar of a session, as parsed from its JSON file. \<open>lastCursor\<close> is \<open>None\<close> when
  the field is missing or is not a finite number (what \<^verbatim>\<open>Number.isFinite\<close> tests).
  The time stamps and the token accounting (\<^verbatim>\<open>usage\<close>, \<^verbatim>\<open>contextInfo\<close>) of the source
  are left out: no operation below reads them.
\<close>

record meta =
  lastCursor :: "int option"
  model :: string
  cwd :: string
  messageCount :: int
  lastMessagePreview :: string
  latestThreadId :: string

text \<open>
  The two directories: sidecars by path, and journal files by path, each journal as the
  bytes of the file. Text is written to a journal and read from it in UTF-8: the
  parameter \<open>stringify\<close> of the writers stands for \<^verbatim>\<open>JSON.stringify\<close> followed by this
  encoding, the parameter \<open>parse\<close> of the readers for the decoding followed by
  \<^verbatim>\<open>JSON.parse\<close>. A line feed is the byte \<open>0A\<close>, and no other character has this byte
  in its encoding, so that the pieces of the decoded text between line feeds are the
  decoded pieces of the bytes between the bytes \<open>0A\<close>.
\<close>

record fsys =
  sidecars :: "string \<rightharpoonup> meta"
  journals :: "string \<rightharpoonup> string"

definition readSessionMeta :: "fsys \<Rightarrow> string \<Rightarrow> error + meta" where
  "readSessionMeta fs sessionId =
     (case getSessionPaths sessionId of
        Inl e \<Rightarrow> Inl e
      | Inr p \<Rightarrow>
          (case sidecars fs (metaPath p) of
             None \<Rightarrow> Inl SESSION_NOT_FOUND
           | Some m \<Rightarrow> Inr m))"

definition writeSessionMeta :: "fsys \<Rightarrow> string \<Rightarrow> meta \<Rightarrow> error + fsys" where
  "writeSessionMeta fs sessionId m =
     (case getSessionPaths sessionId of
        Inl e \<Rightarrow> Inl e
      | Inr p \<Rightarrow> Inr (fs\<lparr>sidecars := (sidecars fs)(metaPath p \<mapsto> m)\<rparr>))"

definition touchEventLog :: "fsys \<Rightarrow> string \<Rightarrow> error + fsys" where
  "touchEventLog fs sessionId =
     (case getSessionPaths sessionId of
        Inl e \<Rightarrow> Inl e
      | Inr p \<Rightarrow>
          Inr (if journals fs (jsonlPath p) = None
               then fs\<lparr>journals := (journals fs)(jsonlPath p \<mapsto> [])\<rparr>
               else fs))"

definition updateSessionMeta :: "fsys \<Rightarrow> string \<Rightarrow> (meta \<Rightarrow> meta) \<Rightarrow> error + (fsys \<times> meta)" where
  "updateSessionMeta fs sessionId updates =
     (case readSessionMeta fs sessionId of
        Inl e \<Rightarrow> Inl e
      | Inr m \<Rightarrow>
          (let merged = updates m
           in case writeSessionMeta fs sessionId merged of
                Inl e \<Rightarrow> Inl e
              | Inr fs' \<Rightarrow> Inr (fs', merged)))"

definition createCodexSession :: "fsys \<Rightarrow> string \<Rightarrow> string \<Rightarrow> string \<Rightarrow> error + (fsys \<times> meta)" where
  "createCodexSession fs sessionId dir mdl =
     (let m = \<lparr>lastCursor = Some 0, model = mdl, cwd = dir, messageCount = 0,
                lastMessagePreview = [], latestThreadId = []\<rparr>
      in case writeSessionMeta fs sessionId m of
           Inl e \<Rightarrow> Inl e
         | Inr fs1 \<Rightarrow>
             (case touchEventLog fs1 sessionId of
                Inl e \<Rightarrow> Inl e
              | Inr fs2 \<Rightarrow> Inr (fs2, m)))"

text \<open>
  What a reader gets from \<^verbatim>\<open>JSON.parse(line)\<close>, as far as the code looks at it:
  \<open>e_cursor\<close> is the text \<^verbatim>\<open>String(entry.cursor)\<close>, \<open>e_cursor_num\<close> the number
  \<^verbatim>\<open>Number(entry.cursor)\<close> (\<open>None\<close> when that is not finite), \<open>e_event\<close> the event kind and
  \<open>e_data\<close> the text \<^verbatim>\<open>JSON.stringify(entry.data)\<close>. The parser itself is a parameter
  \<open>parse\<close> of the readers: \<open>parse line = None\<close> when \<^verbatim>\<open>JSON.parse\<close> throws, or gives
  \<^verbatim>\<open>null\<close> so that the field access throws inside the same \<^verbatim>\<open>try\<close>.
\<close>

record entry =
  e_cursor :: string
  e_cursor_num :: "int option"
  e_event :: string
  e_data :: string

text \<open>
  \<^verbatim>\<open>!line.trim()\<close> for a line given by its bytes: the line holds white space and line
  terminators only. In UTF-8 these are the bytes \<open>09\<close> to \<open>0D\<close> and \<open>20\<close>, the two bytes
  \<open>C2 A0\<close> (U+00A0), and the three bytes \<open>E1 9A 80\<close> (U+1680), \<open>E2 80 80\<close> to \<open>E2 80 8A\<close>
  (U+2000 to U+200A), \<open>E2 80 A8\<close>, \<open>E2 80 A9\<close>, \<open>E2 80 AF\<close>, \<open>E2 81 9F\<close>, \<open>E3 80 80\<close>
  and \<open>EF BB BF\<close> (U+2028, U+2029, U+202F, U+205F, U+3000, U+FEFF).
\<close>

definition ws1 :: "char \<Rightarrow> bool" where
  "ws1 a = (a \<in> set [CHR 0x09, CHR 0x0A, CHR 0x0B, CHR 0x0C, CHR 0x0D, CHR 0x20])"

definition ws2 :: "char \<Rightarrow> char \<Rightarrow> bool" where
  "ws2 a b = (a = CHR 0xC2 \<and> b = CHR 0xA0)"

definition ws3 :: "char \<Rightarrow> char \<Rightarrow> char \<Rightarrow> bool" where
  "ws3 a b c =
     ((a = CHR 0xE1 \<and> b = CHR 0x9A \<and> c = CHR 0x80) \<or>
      (a = CHR 0xE2 \<and> b = CHR 0x80 \<and>
         c \<in> set [CHR 0x80, CHR 0x81, CHR 0x82, CHR 0x83, CHR 0x84, CHR 0x85, CHR 0x86,
                    CHR 0x87, CHR 0x88, CHR 0x89, CHR 0x8A, CHR 0xA8, CHR 0xA9, CHR 0xAF]) \<or>
      (a = CHR 0xE2 \<and> b = CHR 0x81 \<and> c = CHR 0x9F) \<or>
      (a = CHR 0xE3 \<and> b = CHR 0x80 \<and> c = CHR 0x80) \<or>
      (a = CHR 0xEF \<and> b = CHR 0xBB \<and> c = CHR 0xBF))"

fun blank :: "string \<Rightarrow> bool" where
  "blank [] = True"
| "blank [a] = ws1 a"
| "blank [a, b] = ((ws1 a \<and> ws1 b) \<or> ws2 a b)"
| "blank (a # b # c # s) =
     ((ws1 a \<and> blank (b # c # s)) \<or> (ws2 a b \<and> blank (c # s)) \<or> (ws3 a b c \<and> blank s))"

text \<open>The \<^verbatim>\<open>for (const line of lines)\<close> loop of \<^verbatim>\<open>readLastCursorFromFile\<close>.\<close>

fun scanLastCursor :: "(string \<Rightarrow> entry option) \<Rightarrow> string list \<Rightarrow> int" where
  "scanLastCursor parse [] = 0"
| "scanLastCursor parse (line # lines) =
     (if blank line then scanLastCursor parse lines
      else (case parse line of
              Some entry \<Rightarrow> (case e_cursor_num entry of Some c \<Rightarrow> c | None \<Rightarrow> 0)
            | None \<Rightarrow> scanLastCursor parse lines))"

text \<open>
  \<^verbatim>\<open>readLastCursorFromFile(jsonlPath)\<close>; the argument is the content of the file, its
  bytes, \<open>None\<close> when the file does not exist. \<open>size\<close> is \<^verbatim>\<open>stat.size\<close>, the number of
  bytes, and \<open>buffer\<close> the \<open>chunkSize\<close> bytes that \<^verbatim>\<open>readSync\<close> reads from the position
  \<open>size - chunkSize\<close>.
\<close>

definition readLastCursorFromFile :: "(string \<Rightarrow> entry option) \<Rightarrow> string option \<Rightarrow> int" where
  "readLastCursorFromFile parse file =
     (case file of
        None \<Rightarrow> 0
      | Some content \<Rightarrow>
          (let size = length content;
               chunkSize = min (64 * 1024) size;
               buffer = take chunkSize (drop (size - chunkSize) content);
               lines = rev (split_nl buffer)
           in scanLastCursor parse lines))"

text \<open>\<^verbatim>\<open>String(n)\<close> for a whole number below \<open>10^21\<close> in magnitude: its decimal digits.\<close>

fun digits :: "nat \<Rightarrow> string" where
  "digits n =
     (if n < 10 then [char_of (48 + n)]
      else digits (n div 10) @ [char_of (48 + n mod 10)])"

definition String :: "int \<Rightarrow> string" where
  "String i = (if i < 0 then CHR ''-'' # digits (nat (- i)) else digits (nat i))"

text \<open>A journal record, as \<^verbatim>\<open>append\<close> builds it; \<open>'d\<close> is the type of the payload.\<close>

record 'd jrecord =
  r_cursor :: string
  r_event :: string
  r_data :: 'd

text \<open>
  The object \<^verbatim>\<open>createEventWriter\<close> returns: its \<^verbatim>\<open>meta\<close>, the two paths and the
  \<^verbatim>\<open>cursor\<close> variable its methods close over.
\<close>

record writer =
  w_meta :: meta
  w_metaPath :: string
  w_jsonlPath :: string
  w_cursor :: int

definition createEventWriter :: "(string \<Rightarrow> entry option) \<Rightarrow> fsys \<Rightarrow> string \<Rightarrow> error + (fsys \<times> writer)" where
  "createEventWriter parse fs sessionId =
     (case getSessionPaths sessionId of
        Inl e \<Rightarrow> Inl e
      | Inr p \<Rightarrow>
          (case sidecars fs (metaPath p) of
             None \<Rightarrow> Inl SESSION_NOT_FOUND
           | Some m \<Rightarrow>
               (let fs = (if journals fs (jsonlPath p) = None
                          then fs\<lparr>journals := (journals fs)(jsonlPath p \<mapsto> [])\<rparr>
                          else fs);
                    m = (if lastCursor m = None
                         then m\<lparr>lastCursor :=
                                  Some (readLastCursorFromFile parse (journals fs (jsonlPath p)))\<rparr>
                         else m);
                    c = (case lastCursor m of Some n \<Rightarrow> n | None \<Rightarrow> 0)
                in Inr (fs, \<lparr>w_meta = m, w_metaPath = metaPath p,
                             w_jsonlPath = jsonlPath p, w_cursor = c\<rparr>))))"

text \<open>\<^verbatim>\<open>fs.appendFileSync(path, text)\<close>, which creates the file when it is missing.\<close>

definition appendFileSync :: "fsys \<Rightarrow> string \<Rightarrow> string \<Rightarrow> fsys" where
  "appendFileSync fs path text =
     fs\<lparr>journals := (journals fs)(path \<mapsto>
           (case journals fs path of None \<Rightarrow> text | Some old \<Rightarrow> old @ text))\<rparr>"

text \<open>
  \<^verbatim>\<open>writer.append(event, data)\<close>. \<open>stringify\<close> stands for \<^verbatim>\<open>JSON.stringify\<close> on records
  (and the encoding of its text in UTF-8); \<^verbatim>\<open>cursor += 1\<close> is an addition of doubles.
  The result is the file system, the writer with its new cursor, and the cursor returned.
\<close>

definition append :: "('d jrecord \<Rightarrow> string) \<Rightarrow> fsys \<Rightarrow> writer \<Rightarrow> string \<Rightarrow> 'd \<Rightarrow> fsys \<times> writer \<times> int" where
  "append stringify fs w ev d =
     (let c = plus1 (w_cursor w);
          record = \<lparr>r_cursor = String c, r_event = ev, r_data = d\<rparr>;
          fs = appendFileSync fs (w_jsonlPath w) (stringify record @ [nl])
      in (fs, w\<lparr>w_cursor := c\<rparr>, c))"

text \<open>
  \<^verbatim>\<open>writer.commit(updates)\<close>; \<open>updates\<close> is what \<^verbatim>\<open>Object.assign(meta, updates)\<close> does to
  the sidecar, the identity for \<^verbatim>\<open>commit()\<close>.
\<close>

definition commit :: "fsys \<Rightarrow> writer \<Rightarrow> (meta \<Rightarrow> meta) \<Rightarrow> fsys \<times> writer" where
  "commit fs w updates =
     (let m = (w_meta w)\<lparr>lastCursor := Some (w_cursor w)\<rparr>;
          m = updates m
      in (fs\<lparr>sidecars := (sidecars fs)(w_metaPath w \<mapsto> m)\<rparr>, w\<lparr>w_meta := m\<rparr>))"

text \<open>A run of \<^verbatim>\<open>append\<close> calls on one writer, with the cursors they return.\<close>

fun appends :: "('d jrecord \<Rightarrow> string) \<Rightarrow> fsys \<Rightarrow> writer \<Rightarrow> (string \<times> 'd) list \<Rightarrow> fsys \<times> writer \<times> int list" where
  "appends stringify fs w [] = (fs, w, [])"
| "appends stringify fs w ((ev, d) # rest) =
     (case append stringify fs w ev d of
        (fs1, w1, c) \<Rightarrow>
          (case appends stringify fs1 w1 rest of
             (fs2, w2, cs) \<Rightarrow> (fs2, w2, c # cs)))"

text \<open>The text of a file that consists of the lines of the given records.\<close>

definition render :: "('d jrecord \<Rightarrow> string) \<Rightarrow> 'd jrecord list \<Rightarrow> string" where
  "render stringify rs = concat (map (\<lambda>r. stringify r @ [nl]) rs)"

text \<open>The records with the given cursor numbers, event kinds and payloads.\<close>

definition records_of :: "(int \<times> string \<times> 'd) list \<Rightarrow> 'd jrecord list" where
  "records_of xs = map (\<lambda>(k, ev, d). \<lparr>r_cursor = String k, r_event = ev, r_data = d\<rparr>) xs"

text \<open>
  \<^verbatim>\<open>JSON.stringify(record)\<close> for a record whose payload is given as its JSON text and
  whose event kind is a plain word (no character that JSON escapes).
\<close>

definition stringify_record :: "string jrecord \<Rightarrow> string" where
  "stringify_record r =
     ''{\"cursor\":\"'' @ r_cursor r @ ''\",\"event\":\"'' @ r_event r @ ''\",\"data\":'' @ r_data r @ ''}''"

section \<open>Example data\<close>

text \<open>A session, its two paths, a sidecar and a file system, for the worked examples.\<close>

definition example_sid :: string where
  "example_sid = ''0123abcd-0123-4567-89ab-0123456789ab''"

definition example_paths :: session_paths where
  "example_paths =
     \<lparr>metaPath = ''~/.claude-gateway/codex-sessions/0123abcd-0123-4567-89ab-0123456789ab.json'',
      jsonlPath = ''~/.claude-gateway/codex-events/0123abcd-0123-4567-89ab-0123456789ab.jsonl''\<rparr>"

definition example_meta :: "int option \<Rightarrow> meta" where
  "example_meta c =
     \<lparr>lastCursor = c, model = ''gpt-5.2-codex-low'', cwd = ''/tmp'', messageCount = 0,
      lastMessagePreview = [], latestThreadId = []\<rparr>"

definition example_old :: "(int \<times> string \<times> string) list" where
  "example_old = [(1, ''session_meta'', ''{}''), (2, ''session_meta'', ''{}'')]"

definition example_fs :: "int option \<Rightarrow> string \<Rightarrow> fsys" where
  "example_fs c txt =
     \<lparr>sidecars = [metaPath example_paths \<mapsto> example_meta c],
      journals = [jsonlPath example_paths \<mapsto> txt]\<rparr>"

section \<open>Recovery as the specification words it\<close>




section \<open>A decoder for the writer's lines\<close>

text \<open>
  The readers take \<^verbatim>\<open>JSON.parse\<close> as a parameter. For the worked examples,
  \<open>parse_record\<close> stands in for it on lines of ASCII characters: it decodes a line of
  the form \<^verbatim>\<open>{"cursor":"<digits>","event":"<word>","data":<json>}\<close>, which is what
  \<open>stringify_record\<close> writes, and rejects every other line. On the lines of the examples
  it gives what \<^verbatim>\<open>JSON.parse\<close>, \<^verbatim>\<open>String\<close>, \<^verbatim>\<open>Number\<close> and \<^verbatim>\<open>JSON.stringify\<close> give.
\<close>

fun strip_prefix :: "string \<Rightarrow> string \<Rightarrow> string option" where
  "strip_prefix [] s = Some s"
| "strip_prefix (p # ps) [] = None"
| "strip_prefix (p # ps) (c # cs) = (if p = c then strip_prefix ps cs else None)"

definition isDigit :: "char \<Rightarrow> bool" where
  "isDigit c = (c \<in> set ''0123456789'')"

definition Number_digits :: "string \<Rightarrow> int option" where
  "Number_digits s =
     (if s \<noteq> [] \<and> list_all isDigit s
      then Some (foldl (\<lambda>a c. 10 * a + (of_char c - 48)) 0 s)
      else None)"

definition notQuote :: "char \<Rightarrow> bool" where
  "notQuote c = (c \<noteq> CHR 0x22)"

definition parse_record :: "string \<Rightarrow> entry option" where
  "parse_record line =
     (case strip_prefix ''{\"cursor\":\"'' line of
        None \<Rightarrow> None
      | Some r1 \<Rightarrow>
          (case strip_prefix ''\",\"event\":\"'' (dropWhile notQuote r1) of
             None \<Rightarrow> None
           | Some r2 \<Rightarrow>
               (case strip_prefix ''\",\"data\":'' (dropWhile notQuote r2) of
                  None \<Rightarrow> None
                | Some r3 \<Rightarrow>
                    if r3 = [] \<or> last r3 \<noteq> CHR ''}'' \<or> Number_digits (takeWhile notQuote r1) = None
                    then None
                    else Some \<lparr>e_cursor = takeWhile notQuote r1,
                               e_cursor_num = Number_digits (takeWhile notQuote r1),
                               e_event = takeWhile notQuote r2,
                               e_data = butlast r3\<rparr>)))"



section \<open>The exec-turn engine\<close>

text \<open>
  The events the engine writes. Message identifiers come from \<^verbatim>\<open>newId()\<close>, a random
  UUID in the source; the model draws them from a counter, so that every call gives an
  identifier that was never given before. Time stamps are left out.
\<close>

datatype role = User | Assistant

datatype stop_reason = EndTurn | Error | Cancelled

datatype block =
    TextBlock string
  | ThinkingBlock string
  | ToolUse string string
  | ToolResult string string bool nat

datatype event_data =
    MessageStart nat int role string
  | ContentBlock nat nat block
  | MessageEnd nat stop_reason
  | SessionMeta string string string string bool nat

text \<open>
  The fields are, in this order: \<open>MessageStart id lineNumber role sessionId\<close>,
  \<open>ContentBlock messageId index block\<close>, \<open>MessageEnd id stopReason\<close>,
  \<open>SessionMeta sessionId cwd model latestThreadId isActive queueLength\<close>;
  \<open>ToolUse toolUseId command\<close> and \<open>ToolResult toolUseId content isError charCount\<close>.
\<close>

text \<open>
  What the server takes from its environment: the JSON functions of the runtime
  (\<open>JSON_stringify\<close> on journal records, \<open>JSON_parse\<close> on journal lines) and the configuration.
\<close>

record env =
  JSON_stringify :: "event_data jrecord \<Rightarrow> string"
  JSON_parse :: "string \<Rightarrow> entry option"
  CODEX_MODEL :: string
  CODEX_MODEL_CHOICES :: "string list"
  CODEX_BIN :: string

record turn =
  t_prompt :: string
  t_content :: string
  t_imagePath :: string
  t_userMessageId :: nat

text \<open>
  The variables one call of \<^verbatim>\<open>startNextCodexTurn\<close> creates and its callbacks
  (\<^verbatim>\<open>finalizeRun\<close>, the handlers of the child's output) close over. \<open>r_proc\<close> is the child
  process: \<open>None\<close> before it is spawned, otherwise its \<^verbatim>\<open>killed\<close> flag.
\<close>

record run =
  r_sessionMeta :: meta
  r_writer :: writer
  r_turn :: turn
  r_assistantMessageId :: nat
  r_blockIndex :: nat
  r_stderrBuf :: string
  r_finished :: bool
  r_assistantPreview :: string
  r_latestThreadId :: string
  r_lastCursor :: int
  r_proc :: "bool option"

text \<open>
  The state of the engine for one session. The maps of the source
  (\<^verbatim>\<open>activeCodexRuns\<close>, \<^verbatim>\<open>codexProcBySession\<close>, \<^verbatim>\<open>codexFinalizeBySession\<close>,
  \<^verbatim>\<open>codexQueueBySession\<close>) are keyed by session and every handler touches the entries of
  its own session only; the model keeps the entries of one session: \<open>active\<close>, \<open>proc\<close>
  and \<open>finalize\<close> (the run whose child, whose \<^verbatim>\<open>finalizeRun\<close> is registered) and
  \<open>queue\<close> (\<open>None\<close> when the map has no entry). \<open>runs\<close> holds the closures of all turns
  started so far, \<open>nextId\<close> is the counter behind \<^verbatim>\<open>newId()\<close>.
\<close>

record engine =
  e_fs :: fsys
  active :: bool
  proc :: "nat option"
  finalize :: "nat option"
  queue :: "turn list option"
  runs :: "run list"
  nextId :: nat

definition the_queue :: "engine \<Rightarrow> turn list" where
  "the_queue st = (case queue st of None \<Rightarrow> [] | Some q \<Rightarrow> q)"

text \<open>\<^verbatim>\<open>a || b\<close> on strings.\<close>

definition or_else :: "string \<Rightarrow> string \<Rightarrow> string" where
  "or_else a b = (if a = [] then b else a)"

text \<open>\<^verbatim>\<open>meta.lastCursor || 0\<close>.\<close>

definition cursor_or_0 :: "meta \<Rightarrow> int" where
  "cursor_or_0 m = (case lastCursor m of None \<Rightarrow> 0 | Some c \<Rightarrow> c)"

definition emitCodexSessionMetaUpdate :: "env \<Rightarrow> string \<Rightarrow> engine \<Rightarrow> engine" where
  "emitCodexSessionMetaUpdate env sessionId st =
     (case readSessionMeta (e_fs st) sessionId of
        Inl e \<Rightarrow> st
      | Inr m \<Rightarrow>
          (case createEventWriter (JSON_parse env) (e_fs st) sessionId of
             Inl e \<Rightarrow> st
           | Inr (fs1, w) \<Rightarrow>
               (let isActive = active st;
                    queueLength = length (the_queue st);
                    effectiveModel = or_else (model m) (or_else (CODEX_MODEL env) []);
                    (fs2, w2, c) = append (JSON_stringify env) fs1 w ''session_meta''
                       (SessionMeta sessionId (cwd m) effectiveModel
                          (or_else (latestThreadId m) []) isActive queueLength);
                    (fs3, w3) = commit fs2 w2 id
                in st\<lparr>e_fs := fs3\<rparr>)))"

subsection \<open>The closures of a turn\<close>

text \<open>The \<^verbatim>\<open>append\<close> of a turn: \<^verbatim>\<open>lastCursor = writer.append(event, data)\<close>.\<close>

definition run_append :: "env \<Rightarrow> engine \<Rightarrow> nat \<Rightarrow> string \<Rightarrow> event_data \<Rightarrow> engine" where
  "run_append env st rid ev d =
     (let r = runs st ! rid;
          (fs1, w1, c) = append (JSON_stringify env) (e_fs st) (r_writer r) ev d
      in st\<lparr>e_fs := fs1, runs := (runs st)[rid := r\<lparr>r_writer := w1, r_lastCursor := c\<rparr>]\<rparr>)"

definition run_content_block :: "env \<Rightarrow> engine \<Rightarrow> nat \<Rightarrow> block \<Rightarrow> engine" where
  "run_content_block env st rid b =
     (let r = runs st ! rid;
          index = r_blockIndex r;
          st = st\<lparr>runs := (runs st)[rid := r\<lparr>r_blockIndex := index + 1\<rparr>]\<rparr>
      in run_append env st rid ''content_block''
           (ContentBlock (r_assistantMessageId r) index b))"

definition appendAssistantText :: "env \<Rightarrow> engine \<Rightarrow> nat \<Rightarrow> string \<Rightarrow> engine" where
  "appendAssistantText env st rid txt = run_content_block env st rid (TextBlock txt)"

text \<open>\<^verbatim>\<open>finalizeRun(stopReason, code)\<close> of the turn \<open>rid\<close>.\<close>

definition finalizeRun :: "env \<Rightarrow> string \<Rightarrow> engine \<Rightarrow> nat \<Rightarrow> stop_reason \<Rightarrow> int option \<Rightarrow> engine" where
  "finalizeRun env sessionId st rid stopReason code =
     (if r_finished (runs st ! rid) then st
      else
        (let st = st\<lparr>runs := (runs st)[rid := (runs st ! rid)\<lparr>r_finished := True\<rparr>]\<rparr>;
             stderrPreview = slice_to 2000 (trim (r_stderrBuf (runs st ! rid)));
             st = (if stopReason = Error
                   then (if r_blockIndex (runs st ! rid) = 0
                         then appendAssistantText env st rid
                                (''Codex failed to produce a response (exit='' @
                                   (case code of None \<Rightarrow> ''unknown'' | Some n \<Rightarrow> String n) @ '').'' @ [nl] @
                                 (if stderrPreview \<noteq> [] then [nl] @ ''Stderr:'' @ [nl] @ stderrPreview else []))
                         else if stderrPreview \<noteq> []
                         then appendAssistantText env st rid (''(Codex stderr)'' @ [nl] @ stderrPreview)
                         else st)
                   else st);
             st = (if stopReason = Cancelled \<and> r_blockIndex (runs st ! rid) = 0
                   then appendAssistantText env st rid ''Cancelled.''
                   else st);
             st = run_append env st rid ''message_end''
                    (MessageEnd (r_assistantMessageId (runs st ! rid)) stopReason);
             r = runs st ! rid;
             mdl = or_else (model (r_sessionMeta r)) (or_else (CODEX_MODEL env) []);
             (fs1, w1) = commit (e_fs st) (r_writer r)
                (\<lambda>m. m\<lparr>lastMessagePreview :=
                           slice_to 120 (or_else (r_assistantPreview r) (t_content (r_turn r))),
                         messageCount := r_lastCursor r,
                         latestThreadId :=
                           or_else (r_latestThreadId r) (or_else (latestThreadId (w_meta (r_writer r))) []),
                         model := mdl\<rparr>);
             st = st\<lparr>e_fs := fs1, runs := (runs st)[rid := r\<lparr>r_writer := w1\<rparr>]\<rparr>;
             st = st\<lparr>proc := None\<rparr>;
             st = st\<lparr>finalize := None\<rparr>;
             st = st\<lparr>active := False\<rparr>
         in emitCodexSessionMetaUpdate env sessionId st))"

text \<open>
  A line of the child's standard output, as \<^verbatim>\<open>JSON.parse\<close> gives it and as far as the
  handler tells lines apart: \<open>ThreadStarted thread_id\<close>, \<open>TurnCompleted\<close>,
  \<open>CommandStarted id command\<close>, \<open>CommandCompleted id aggregated_output exit_code\<close>,
  \<open>AgentMessage text\<close>, \<open>Reasoning text\<close>, and \<open>Ignored\<close> for every other line (blank,
  malformed, or of another type).
\<close>

datatype codex_event =
    ThreadStarted string
  | TurnCompleted
  | CommandStarted string string
  | CommandCompleted string string int
  | AgentMessage string
  | Reasoning string
  | Ignored

text \<open>The \<^verbatim>\<open>stdoutRl.on('line', ...)\<close> handler of the turn \<open>rid\<close>.\<close>

fun onStdoutLine :: "env \<Rightarrow> engine \<Rightarrow> nat \<Rightarrow> codex_event \<Rightarrow> engine" where
  "onStdoutLine env st rid (ThreadStarted thread_id) =
     (if thread_id \<noteq> []
      then st\<lparr>runs := (runs st)[rid := (runs st ! rid)\<lparr>r_latestThreadId := thread_id\<rparr>]\<rparr>
      else st)"
| "onStdoutLine env st rid TurnCompleted = st"
| "onStdoutLine env st rid (CommandStarted item_id command) =
     run_content_block env st rid (ToolUse item_id command)"
| "onStdoutLine env st rid (CommandCompleted item_id output exit_code) =
     run_content_block env st rid (ToolResult item_id output (exit_code \<noteq> 0) (length output))"
| "onStdoutLine env st rid (AgentMessage txt) =
     (let st = (if txt \<noteq> []
                then st\<lparr>runs := (runs st)[rid := (runs st ! rid)\<lparr>r_assistantPreview := txt\<rparr>]\<rparr>
                else st)
      in run_content_block env st rid (TextBlock txt))"
| "onStdoutLine env st rid (Reasoning txt) =
     run_content_block env st rid (ThinkingBlock txt)"
| "onStdoutLine env st rid Ignored = st"

text \<open>The \<^verbatim>\<open>proc.stderr.on('data', ...)\<close> handler.\<close>

definition onStderrData :: "engine \<Rightarrow> nat \<Rightarrow> string \<Rightarrow> engine" where
  "onStderrData st rid txt =
     (if trim txt \<noteq> []
      then (let buf = r_stderrBuf (runs st ! rid) @ txt;
                buf = (if length buf > 8000 then slice_last 8000 buf else buf)
            in st\<lparr>runs := (runs st)[rid := (runs st ! rid)\<lparr>r_stderrBuf := buf\<rparr>]\<rparr>)
      else st)"

text \<open>The \<^verbatim>\<open>proc.on('close', ...)\<close> and \<^verbatim>\<open>proc.on('error', ...)\<close> handlers.\<close>

definition onClose :: "env \<Rightarrow> string \<Rightarrow> engine \<Rightarrow> nat \<Rightarrow> int option \<Rightarrow> engine" where
  "onClose env sessionId st rid code =
     (let stopReason = (if code = Some 0 then EndTurn else Error)
      in finalizeRun env sessionId st rid stopReason code)"

definition onError :: "env \<Rightarrow> string \<Rightarrow> engine \<Rightarrow> nat \<Rightarrow> string \<Rightarrow> engine" where
  "onError env sessionId st rid message =
     (let st = st\<lparr>runs := (runs st)[rid := (runs st ! rid)
                   \<lparr>r_stderrBuf := or_else message (r_stderrBuf (runs st ! rid))\<rparr>]\<rparr>
      in finalizeRun env sessionId st rid Error None)"

subsection \<open>Starting a turn\<close>

text \<open>
  \<^verbatim>\<open>startNextCodexTurn(sessionId)\<close>. \<open>binExists\<close> is what \<^verbatim>\<open>executableExists(CODEX_BIN)\<close>
  answers at this call.
\<close>

definition startNextCodexTurn :: "env \<Rightarrow> string \<Rightarrow> bool \<Rightarrow> engine \<Rightarrow> engine" where
  "startNextCodexTurn env sessionId binExists st =
     (if active st then st
      else
        (case the_queue st of
           [] \<Rightarrow> st
         | t # rest \<Rightarrow>
             (let st = st\<lparr>queue := Some rest\<rparr>
              in case readSessionMeta (e_fs st) sessionId of
                   Inl e \<Rightarrow> st
                 | Inr sessionMeta \<Rightarrow>
                     (case createEventWriter (JSON_parse env) (e_fs st) sessionId of
                        Inl e \<Rightarrow> st
                      | Inr (fs1, w) \<Rightarrow>
                          (let assistantMessageId = nextId st;
                               rid = length (runs st);
                               r = \<lparr>r_sessionMeta = sessionMeta, r_writer = w, r_turn = t,
                                    r_assistantMessageId = assistantMessageId,
                                    r_blockIndex = 0, r_stderrBuf = [], r_finished = False,
                                    r_assistantPreview = [], r_latestThreadId = [],
                                    r_lastCursor = cursor_or_0 (w_meta w), r_proc = None\<rparr>;
                               st = st\<lparr>e_fs := fs1, nextId := nextId st + 1, runs := runs st @ [r]\<rparr>;
                               st = st\<lparr>finalize := Some rid\<rparr>;
                               st = st\<lparr>active := True\<rparr>;
                               st = emitCodexSessionMetaUpdate env sessionId st
                           in if \<not> binExists
                              then (let st = st\<lparr>runs := (runs st)[rid := (runs st ! rid)
                                               \<lparr>r_stderrBuf := ''Executable not found: '' @ CODEX_BIN env\<rparr>]\<rparr>
                                    in finalizeRun env sessionId st rid Error None)
                              else (let st = run_append env st rid ''message_start''
                                               (MessageStart assistantMessageId
                                                  (plus1 (r_lastCursor (runs st ! rid))) Assistant sessionId);
                                        st = st\<lparr>runs := (runs st)[rid := (runs st ! rid)\<lparr>r_proc := Some False\<rparr>]\<rparr>
                                    in st\<lparr>proc := Some rid\<rparr>))))))"

subsection \<open>Gateway commands\<close>

text \<open>\<^verbatim>\<open>s.replace(/pat/g, rep)\<close> for a literal, non-empty pattern; \<open>skip\<close> counts the
  characters of a match still to be passed over.\<close>

fun replaceAll :: "nat \<Rightarrow> string \<Rightarrow> string \<Rightarrow> string \<Rightarrow> string" where
  "replaceAll skip pat rep [] = []"
| "replaceAll skip pat rep (c # cs) =
     (if skip > 0 then replaceAll (skip - 1) pat rep cs
      else if startsWith (c # cs) pat then rep @ replaceAll (length pat - 1) pat rep cs
      else c # replaceAll 0 pat rep cs)"

definition formatModelLabel :: "string \<Rightarrow> string" where
  "formatModelLabel mdl =
     (let m = trim mdl
      in if m = [] then m
         else (let m = (if startsWith m ''gpt-'' then drop 4 m else m);
                   m = replaceAll 0 ''-codex-'' '' codex '' m;
                   m = replaceAll 0 ''-'' '' '' m
               in m))"

text \<open>\<^verbatim>\<open>s.split(/\s+/).filter(Boolean)\<close>: the words of a string.\<close>

fun words_from :: "string \<Rightarrow> string \<Rightarrow> string list" where
  "words_from acc [] = (if acc = [] then [] else [acc])"
| "words_from acc (c # cs) =
     (if isWhiteSpace c
      then (if acc = [] then words_from [] cs else acc # words_from [] cs)
      else words_from (acc @ [c]) cs)"

definition words :: "string \<Rightarrow> string list" where
  "words s = words_from [] s"

text \<open>The test that sends a message to the command branch.\<close>

definition isGatewayCommand :: "string \<Rightarrow> bool" where
  "isGatewayCommand trimmed = (trimmed = ''/models'' \<or> startsWith trimmed ''/model'')"

definition currentModel :: "env \<Rightarrow> meta \<Rightarrow> string" where
  "currentModel env sessionMeta = or_else (model sessionMeta) (or_else (CODEX_MODEL env) ''(default)'')"

text \<open>
  The body of the command branch between \<^verbatim>\<open>message_start\<close> and \<^verbatim>\<open>message_end\<close>: the
  text of the reply, and the file system after the \<^verbatim>\<open>writeSessionMeta\<close> of
  \<^verbatim>\<open>/model <name>\<close> (whose errors are ignored).
\<close>

definition commandReply :: "env \<Rightarrow> string \<Rightarrow> fsys \<Rightarrow> meta \<Rightarrow> string \<Rightarrow> fsys \<times> string" where
  "commandReply env sessionId fs sessionMeta trimmed =
     (if trimmed = ''/models''
      then (fs, ''Current model: '' @ currentModel env sessionMeta @ [nl, nl] @
                ''Quick set:'' @ [nl] @
                join [nl] (map (\<lambda>m. ''- '' @ formatModelLabel m @ ''  (/model '' @ m @ '')'')
                             (CODEX_MODEL_CHOICES env)))
      else (let parts = words trimmed;
                requested = (if length parts \<ge> 2 then join '' '' (tl parts) else [])
            in if requested = []
               then (fs, ''Current model: '' @ currentModel env sessionMeta @ [nl, nl] @
                         ''Use: /model <name> or /models'')
               else (let updated = sessionMeta\<lparr>model := requested\<rparr>;
                         fs = (case writeSessionMeta fs sessionId updated of
                                 Inl e \<Rightarrow> fs | Inr fs' \<Rightarrow> fs')
                     in (fs, ''Model set to: '' @ requested))))"

subsection \<open>Submitting a message\<close>

datatype response = MISSING_CONTENT | NotFound error | INTERNAL_ERROR | Accepted nat

text \<open>
  \<^verbatim>\<open>POST /api/codex/sessions/:sessionId/messages\<close>. \<open>imagePath\<close> is empty when the
  request has none. Scheduling \<^verbatim>\<open>startNextCodexTurn\<close> with \<^verbatim>\<open>setImmediate\<close> leaves
  no trace in the state: the call is an event of its own.
\<close>

definition submit :: "env \<Rightarrow> string \<Rightarrow> engine \<Rightarrow> string \<Rightarrow> string \<Rightarrow> engine \<times> response" where
  "submit env sessionId st content imagePath =
     (if content = [] then (st, MISSING_CONTENT)
      else
        (case readSessionMeta (e_fs st) sessionId of
           Inl e \<Rightarrow> (st, NotFound e)
         | Inr sessionMeta \<Rightarrow>
             (let prompt = content @
                    (if imagePath \<noteq> [] then [nl, nl] @ ''[Attached image: '' @ imagePath @ '']'' else []);
                  st = st\<lparr>queue := Some (the_queue st)\<rparr>
              in case createEventWriter (JSON_parse env) (e_fs st) sessionId of
                   Inl e \<Rightarrow> (st, INTERNAL_ERROR)
                 | Inr (fs0, w0) \<Rightarrow>
                     (let userMessageId = nextId st;
                          st = st\<lparr>nextId := nextId st + 1\<rparr>;
                          lastCursor0 = cursor_or_0 (w_meta w0);
                          userLineNumber = plus1 lastCursor0;
                          (fs1, w1, lastCursor1) = append (JSON_stringify env) fs0 w0 ''message_start''
                             (MessageStart userMessageId userLineNumber User sessionId);
                          (fs2, w2, lastCursor2) = append (JSON_stringify env) fs1 w1 ''content_block''
                             (ContentBlock userMessageId 0 (TextBlock prompt));
                          (fs3, w3, lastCursor3) = append (JSON_stringify env) fs2 w2 ''message_end''
                             (MessageEnd userMessageId EndTurn);
                          (fs4, w4) = commit fs3 w3
                             (\<lambda>m. m\<lparr>lastMessagePreview := slice_to 120 content,
                                      messageCount := lastCursor3\<rparr>);
                          trimmed = trim content
                      in if isGatewayCommand trimmed
                         then
                           (let assistantMessageId = nextId st;
                                st = st\<lparr>nextId := nextId st + 1\<rparr>;
                                (fs5, w5, assistantCursor5) = append (JSON_stringify env) fs4 w4 ''message_start''
                                   (MessageStart assistantMessageId (plus1 lastCursor3) Assistant sessionId);
                                (fs6, reply) = commandReply env sessionId fs5 sessionMeta trimmed;
                                (fs7, w7, assistantCursor7) = append (JSON_stringify env) fs6 w5 ''content_block''
                                   (ContentBlock assistantMessageId 0 (TextBlock reply));
                                (fs8, w8, assistantCursor8) = append (JSON_stringify env) fs7 w7 ''message_end''
                                   (MessageEnd assistantMessageId EndTurn);
                                (fs9, w9) = commit fs8 w8 (\<lambda>m. m\<lparr>messageCount := assistantCursor8\<rparr>);
                                st = emitCodexSessionMetaUpdate env sessionId (st\<lparr>e_fs := fs9\<rparr>)
                            in (st, Accepted userMessageId))
                         else
                           (let t = \<lparr>t_prompt = prompt, t_content = content,
                                     t_imagePath = imagePath, t_userMessageId = userMessageId\<rparr>;
                                st = st\<lparr>e_fs := fs4, queue := Some (the_queue st @ [t])\<rparr>;
                                st = emitCodexSessionMetaUpdate env sessionId st
                            in (st, Accepted userMessageId))))))"

subsection \<open>Cancelling\<close>

record cancel_response =
  ok :: bool
  cancelled :: bool
  running :: bool
  clearedQueue :: bool

text \<open>
  \<^verbatim>\<open>POST /api/codex/sessions/:sessionId/cancel\<close>. \<^verbatim>\<open>proc.kill('SIGTERM')\<close> sets the
  \<^verbatim>\<open>killed\<close> flag of the child; the later \<^verbatim>\<open>SIGKILL\<close> changes nothing in the state.
\<close>

definition cancel :: "env \<Rightarrow> string \<Rightarrow> engine \<Rightarrow> bool \<Rightarrow> engine \<times> cancel_response" where
  "cancel env sessionId st clearQueue =
     (let st = (if clearQueue then st\<lparr>queue := Some []\<rparr> else st);
          fin = finalize st;
          pr = proc st
      in if pr = None \<and> fin = None
         then (emitCodexSessionMetaUpdate env sessionId st,
               \<lparr>ok = True, cancelled = False, running = False, clearedQueue = clearQueue\<rparr>)
         else
           (let st = (case fin of
                        None \<Rightarrow> st
                      | Some rid \<Rightarrow> finalizeRun env sessionId st rid Cancelled None);
                st = (case pr of
                        None \<Rightarrow> st
                      | Some rid \<Rightarrow>
                          if r_proc (runs st ! rid) = Some False
                          then st\<lparr>runs := (runs st)[rid := (runs st ! rid)\<lparr>r_proc := Some True\<rparr>]\<rparr>
                          else st);
                st = emitCodexSessionMetaUpdate env sessionId st
            in (st, \<lparr>ok = True, cancelled = True, running = True, clearedQueue = clearQueue\<rparr>)))"

subsection \<open>The engine as a transition system\<close>

text \<open>
  What can happen to a session: the two requests, a call of \<^verbatim>\<open>startNextCodexTurn\<close>
  (scheduled by \<^verbatim>\<open>setImmediate\<close>; the flag is the answer of \<^verbatim>\<open>executableExists\<close>), and
  the events of the child of a turn, which reach the handlers of that turn only once the
  child was spawned. Each handler runs to completion before the next event.
\<close>

datatype event =
    Submit string string
  | Cancel bool
  | StartNext bool
  | StdoutLine nat codex_event
  | StderrData nat string
  | ProcClose nat "int option"
  | ProcError nat string

definition has_child :: "engine \<Rightarrow> nat \<Rightarrow> bool" where
  "has_child st rid = (rid < length (runs st) \<and> r_proc (runs st ! rid) \<noteq> None)"

fun step :: "env \<Rightarrow> string \<Rightarrow> engine \<Rightarrow> event \<Rightarrow> engine" where
  "step env sessionId st (Submit content imagePath) = fst (submit env sessionId st content imagePath)"
| "step env sessionId st (Cancel clearQueue) = fst (cancel env sessionId st clearQueue)"
| "step env sessionId st (StartNext binExists) = startNextCodexTurn env sessionId binExists st"
| "step env sessionId st (StdoutLine rid e) =
     (if has_child st rid then onStdoutLine env st rid e else st)"
| "step env sessionId st (StderrData rid txt) =
     (if has_child st rid then onStderrData st rid txt else st)"
| "step env sessionId st (ProcClose rid code) =
     (if has_child st rid then onClose env sessionId st rid code else st)"
| "step env sessionId st (ProcError rid message) =
     (if has_child st rid then onError env sessionId st rid message else st)"

definition run_events :: "env \<Rightarrow> string \<Rightarrow> engine \<Rightarrow> event list \<Rightarrow> engine" where
  "run_events env sessionId st evs = foldl (step env sessionId) st evs"

text \<open>
  The engine of a server that has just created the session
  (\<^verbatim>\<open>POST /api/codex/session/start\<close>) on an empty storage directory.
\<close>

definition new_session :: "env \<Rightarrow> string \<Rightarrow> string \<Rightarrow> engine" where
  "new_session env sessionId dir =
     \<lparr>e_fs = (case createCodexSession \<lparr>sidecars = Map.empty, journals = Map.empty\<rparr>
                      sessionId dir (CODEX_MODEL env) of
                 Inl e \<Rightarrow> \<lparr>sidecars = Map.empty, journals = Map.empty\<rparr>
               | Inr (fs, m) \<Rightarrow> fs),
      active = False, proc = None, finalize = None, queue = None, runs = [], nextId = 0\<rparr>"

text \<open>The journal of the session, as text.\<close>

definition journal_of :: "string \<Rightarrow> engine \<Rightarrow> string" where
  "journal_of sessionId st =
     (case getSessionPaths sessionId of
        Inl e \<Rightarrow> []
      | Inr p \<Rightarrow> (case journals (e_fs st) (jsonlPath p) of None \<Rightarrow> [] | Some txt \<Rightarrow> txt))"

section \<open>Reading a journal as a sequence of events\<close>

text \<open>
  What the invariants below say of a state: its control part and, of every turn, the
  message identifier, whether the turn is finished, its child, its prompt, and whether its
  writer writes to the files of the session.
\<close>

definition wpaths :: "session_paths \<Rightarrow> writer \<Rightarrow> bool" where
  "wpaths p w = (w_metaPath w = metaPath p \<and> w_jsonlPath w = jsonlPath p)"

record arun =
  a_mid :: nat
  a_finished :: bool
  a_child :: "bool option"
  a_turn :: turn
  a_wpaths :: bool

definition core :: "session_paths \<Rightarrow> run \<Rightarrow> arun" where
  "core p r =
     \<lparr>a_mid = r_assistantMessageId r, a_finished = r_finished r, a_child = r_proc r,
      a_turn = r_turn r, a_wpaths = wpaths p (r_writer r)\<rparr>"

record astate =
  a_active :: bool
  a_proc :: "nat option"
  a_finalize :: "nat option"
  a_queue :: "turn list option"
  a_nextId :: nat
  a_runs :: "arun list"

definition abs_state :: "session_paths \<Rightarrow> engine \<Rightarrow> astate" where
  "abs_state p st =
     \<lparr>a_active = active st, a_proc = proc st, a_finalize = finalize st, a_queue = queue st,
      a_nextId = nextId st, a_runs = map (core p) (runs st)\<rparr>"

text \<open>The files of the session exist; the text of its journal.\<close>

definition fsok :: "session_paths \<Rightarrow> fsys \<Rightarrow> bool" where
  "fsok p fs = (sidecars fs (metaPath p) \<noteq> None \<and> journals fs (jsonlPath p) \<noteq> None)"

definition jtext :: "session_paths \<Rightarrow> fsys \<Rightarrow> string" where
  "jtext p fs = (case journals fs (jsonlPath p) of None \<Rightarrow> [] | Some txt \<Rightarrow> txt)"

text \<open>
  \<open>jstep S p fs fs' ds\<close>: from \<open>fs\<close> to \<open>fs'\<close> the journal of the session has grown by the
  lines of records with the payloads \<open>ds\<close>, in this order.
\<close>

definition jstep :: "(event_data jrecord \<Rightarrow> string) \<Rightarrow> session_paths \<Rightarrow> fsys \<Rightarrow> fsys \<Rightarrow> event_data list \<Rightarrow> bool" where
  "jstep S p fs fs' ds =
     (fsok p fs' \<and> (\<exists>rs. map r_data rs = ds \<and> jtext p fs' = jtext p fs @ render S rs))"

text \<open>
  The life of a message, read off a sequence of events from its start: a message is
  \<open>Started\<close> by its \<open>message_start\<close> and \<open>Ended\<close> by its \<open>message_end\<close>. \<open>track\<close> follows
  every message through the sequence and records whether the sequence is well formed so
  far: a \<open>message_start\<close> only for a message not seen before, a \<open>message_end\<close> only
  for a message that is \<open>Started\<close>, a \<open>content_block\<close> only for a message that has been
  started and, when \<open>strict\<close>, has not ended.
\<close>

datatype phase = Started | Ended

fun track :: "bool \<Rightarrow> (nat \<Rightarrow> phase option) \<times> bool \<Rightarrow> event_data \<Rightarrow> (nat \<Rightarrow> phase option) \<times> bool" where
  "track strict (ph, good) (MessageStart m lineNumber rl sessionId) =
     (ph(m \<mapsto> Started), good \<and> ph m = None)"
| "track strict (ph, good) (ContentBlock m index b) =
     (ph, good \<and> (if strict then ph m = Some Started else ph m \<noteq> None))"
| "track strict (ph, good) (MessageEnd m stopReason) =
     (ph(m \<mapsto> Ended), good \<and> ph m = Some Started)"
| "track strict (ph, good) (SessionMeta sessionId dir mdl threadId isActive queueLength) =
     (ph, good)"

definition phases :: "bool \<Rightarrow> event_data list \<Rightarrow> (nat \<Rightarrow> phase option) \<times> bool" where
  "phases strict ds = foldl (track strict) (Map.empty, True) ds"

definition phase_of :: "event_data list \<Rightarrow> nat \<Rightarrow> phase option" where
  "phase_of ds m = fst (phases False ds) m"

definition messages_wf :: "bool \<Rightarrow> event_data list \<Rightarrow> bool" where
  "messages_wf strict ds = snd (phases strict ds)"

text \<open>The number of \<open>message_end\<close> events with the stop reason \<open>cancelled\<close>.\<close>

fun is_cancelled_end :: "event_data \<Rightarrow> bool" where
  "is_cancelled_end (MessageEnd m stopReason) = (stopReason = Cancelled)"
| "is_cancelled_end d = False"

definition cancelled_ends :: "event_data list \<Rightarrow> nat" where
  "cancelled_ends ds = length (filter is_cancelled_end ds)"

fun is_child_event :: "event \<Rightarrow> bool" where
  "is_child_event (StdoutLine rid e) = True"
| "is_child_event (StderrData rid txt) = True"
| "is_child_event (ProcClose rid code) = True"
| "is_child_event (ProcError rid message) = True"
| "is_child_event ev = False"



text \<open>
  \<^verbatim>\<open>finalizeRun\<close> in two parts, for the proofs: the texts it may add for a turn that
  ends in an error or is cancelled, and everything from \<open>message_end\<close> on.
\<close>

definition finalize_texts :: "env \<Rightarrow> engine \<Rightarrow> nat \<Rightarrow> stop_reason \<Rightarrow> int option \<Rightarrow> engine" where
  "finalize_texts env st rid stopReason code =
     (let st = st\<lparr>runs := (runs st)[rid := (runs st ! rid)\<lparr>r_finished := True\<rparr>]\<rparr>;
          stderrPreview = slice_to 2000 (trim (r_stderrBuf (runs st ! rid)));
          st = (if stopReason = Error
                then (if r_blockIndex (runs st ! rid) = 0
                      then appendAssistantText env st rid
                             (''Codex failed to produce a response (exit='' @
                                (case code of None \<Rightarrow> ''unknown'' | Some n \<Rightarrow> String n) @ '').'' @ [nl] @
                              (if stderrPreview \<noteq> [] then [nl] @ ''Stderr:'' @ [nl] @ stderrPreview else []))
                      else if stderrPreview \<noteq> []
                      then appendAssistantText env st rid (''(Codex stderr)'' @ [nl] @ stderrPreview)
                      else st)
                else st);
          st = (if stopReason = Cancelled \<and> r_blockIndex (runs st ! rid) = 0
                then appendAssistantText env st rid ''Cancelled.''
                else st)
      in st)"

definition finalize_end :: "env \<Rightarrow> string \<Rightarrow> engine \<Rightarrow> nat \<Rightarrow> stop_reason \<Rightarrow> engine" where
  "finalize_end env sessionId st rid stopReason =
     (let st = run_append env st rid ''message_end''
                 (MessageEnd (r_assistantMessageId (runs st ! rid)) stopReason);
          r = runs st ! rid;
          mdl = or_else (model (r_sessionMeta r)) (or_else (CODEX_MODEL env) []);
          (fs1, w1) = commit (e_fs st) (r_writer r)
             (\<lambda>m. m\<lparr>lastMessagePreview :=
                        slice_to 120 (or_else (r_assistantPreview r) (t_content (r_turn r))),
                      messageCount := r_lastCursor r,
                      latestThreadId :=
                        or_else (r_latestThreadId r) (or_else (latestThreadId (w_meta (r_writer r))) []),
                      model := mdl\<rparr>);
          st = st\<lparr>e_fs := fs1, runs := (runs st)[rid := r\<lparr>r_writer := w1\<rparr>]\<rparr>;
          st = st\<lparr>proc := None\<rparr>;
          st = st\<lparr>finalize := None\<rparr>;
          st = st\<lparr>active := False\<rparr>
      in emitCodexSessionMetaUpdate env sessionId st)"

section \<open>The engine in small steps\<close>

text \<open>
  The handlers of the engine, seen through \<open>abs_state\<close> and the events they append to
  the journal, are sequences of the following steps. \<open>allow\<close> tells whether a turn may
  be finalized before its \<open>message_start\<close> is written, which is what happens when the
  executable is missing.
\<close>

definition aq :: "astate \<Rightarrow> turn list" where
  "aq a = (case a_queue a of None \<Rightarrow> [] | Some q \<Rightarrow> q)"

fun is_meta :: "event_data \<Rightarrow> bool" where
  "is_meta (SessionMeta sessionId dir mdl threadId isActive queueLength) = True"
| "is_meta d = False"

inductive astep :: "bool \<Rightarrow> astate \<times> event_data list \<Rightarrow> astate \<times> event_data list \<Rightarrow> bool" where
  A_meta: "is_meta d \<Longrightarrow> astep allow (a, ds) (a, ds @ [d])"
| A_qnorm: "astep allow (a, ds) (a\<lparr>a_queue := Some (aq a)\<rparr>, ds)"
| A_qclear: "astep allow (a, ds) (a\<lparr>a_queue := Some []\<rparr>, ds)"
| A_message:
    "astep allow (a, ds)
       (a\<lparr>a_nextId := Suc (a_nextId a)\<rparr>,
        ds @ [MessageStart (a_nextId a) ln rl sid, ContentBlock (a_nextId a) i b,
              MessageEnd (a_nextId a) EndTurn])"
| A_submit:
    "t_userMessageId t = a_nextId a \<Longrightarrow>
     astep allow (a, ds)
       (a\<lparr>a_nextId := Suc (a_nextId a), a_queue := Some (aq a @ [t])\<rparr>,
        ds @ [MessageStart (a_nextId a) ln rl sid, ContentBlock (a_nextId a) i b,
              MessageEnd (a_nextId a) EndTurn])"
| A_start:
    "allow \<Longrightarrow> \<not> a_active a \<Longrightarrow> aq a = t # rest \<Longrightarrow>
     astep allow (a, ds)
       (a\<lparr>a_active := True, a_finalize := Some (length (a_runs a)), a_queue := Some rest,
          a_nextId := Suc (a_nextId a),
          a_runs := a_runs a @ [\<lparr>a_mid = a_nextId a, a_finished = False, a_child = None,
                                  a_turn = t, a_wpaths = True\<rparr>]\<rparr>, ds)"
| A_begin:
    "\<not> a_active a \<Longrightarrow> aq a = t # rest \<Longrightarrow>
     astep allow (a, ds)
       (a\<lparr>a_active := True, a_finalize := Some (length (a_runs a)), a_queue := Some rest,
          a_nextId := Suc (a_nextId a), a_proc := Some (length (a_runs a)),
          a_runs := a_runs a @ [\<lparr>a_mid = a_nextId a, a_finished = False, a_child = Some False,
                                  a_turn = t, a_wpaths = True\<rparr>]\<rparr>,
        ds @ [MessageStart (a_nextId a) ln rl sid])"
| A_drop:
    "\<not> a_active a \<Longrightarrow> aq a = t # rest \<Longrightarrow>
     astep allow (a, ds) (a\<lparr>a_queue := Some rest\<rparr>, ds)"
| A_block:
    "rid < length (a_runs a) \<Longrightarrow> a_child (a_runs a ! rid) \<noteq> None \<Longrightarrow>
     astep allow (a, ds) (a, ds @ [ContentBlock (a_mid (a_runs a ! rid)) i b])"
| A_finalize:
    "rid < length (a_runs a) \<Longrightarrow> \<not> a_finished (a_runs a ! rid) \<Longrightarrow>
     allow \<or> a_child (a_runs a ! rid) \<noteq> None \<Longrightarrow>
     blocks = [] \<or> blocks = [ContentBlock (a_mid (a_runs a ! rid)) i b] \<Longrightarrow>
     astep allow (a, ds)
       (a\<lparr>a_active := False, a_proc := None, a_finalize := None,
          a_runs := (a_runs a)[rid := (a_runs a ! rid)\<lparr>a_finished := True\<rparr>]\<rparr>,
        ds @ blocks @ [MessageEnd (a_mid (a_runs a ! rid)) stopReason])"
| A_kill:
    "rid < length (a_runs a) \<Longrightarrow> a_child (a_runs a ! rid) = Some False \<Longrightarrow>
     astep allow (a, ds)
       (a\<lparr>a_runs := (a_runs a)[rid := (a_runs a ! rid)\<lparr>a_child := Some True\<rparr>]\<rparr>, ds)"

text \<open>The invariants of the small steps: control, order of the turns, and the journal.\<close>

definition ctrl_inv :: "astate \<Rightarrow> bool" where
  "ctrl_inv a =
     ((\<forall>rid. a_finalize a = Some rid \<longrightarrow> rid < length (a_runs a) \<and> \<not> a_finished (a_runs a ! rid)) \<and>
      (\<forall>rid. a_proc a = Some rid \<longrightarrow> a_finalize a = Some rid) \<and>
      (a_active a = (a_finalize a \<noteq> None)) \<and>
      (\<forall>rid < length (a_runs a). \<not> a_finished (a_runs a ! rid) \<longrightarrow> a_finalize a = Some rid) \<and>
      list_all a_wpaths (a_runs a))"

definition fifo_inv :: "astate \<Rightarrow> bool" where
  "fifo_inv a =
     (sorted_wrt (<) (map t_userMessageId (map a_turn (a_runs a) @ aq a)) \<and>
      list_all (\<lambda>t. t_userMessageId t < a_nextId a) (map a_turn (a_runs a) @ aq a))"

definition journal_inv :: "astate \<times> event_data list \<Rightarrow> bool" where
  "journal_inv ad =
     (case ad of (a, ds) \<Rightarrow>
        messages_wf False ds \<and>
        (\<forall>m. phase_of ds m \<noteq> None \<longrightarrow> m < a_nextId a) \<and>
        distinct (map a_mid (a_runs a)) \<and>
        (\<forall>i < length (a_runs a).
           a_mid (a_runs a ! i) < a_nextId a \<and>
           phase_of ds (a_mid (a_runs a ! i)) =
             (if a_finished (a_runs a ! i) then Some Ended
              else if a_child (a_runs a ! i) = None then None else Some Started)) \<and>
        (\<forall>m. phase_of ds m = Some Started \<longrightarrow>
           (\<exists>i < length (a_runs a). a_mid (a_runs a ! i) = m \<and> \<not> a_finished (a_runs a ! i))))"

text \<open>The turn that can still be finalised has a child.\<close>

definition spawned :: "astate \<Rightarrow> bool" where
  "spawned a = (\<forall>rid. a_finalize a = Some rid \<longrightarrow> a_child (a_runs a ! rid) \<noteq> None)"

text \<open>The identifiers of the user messages of the turns started and waiting, in order.\<close>

definition keys :: "astate \<Rightarrow> nat list" where
  "keys a = map t_userMessageId (map a_turn (a_runs a) @ aq a)"

text \<open>
  \<open>sim allow k env p st st'\<close>: from \<open>st\<close> to \<open>st'\<close> the journal has grown by the lines of
  some events, at most \<open>k\<close> of them a \<open>message_end\<close> with the reason \<open>cancelled\<close>, and the
  small steps lead from \<open>st\<close> to \<open>st'\<close> adding these events.
\<close>

definition sim :: "bool \<Rightarrow> nat \<Rightarrow> env \<Rightarrow> session_paths \<Rightarrow> engine \<Rightarrow> engine \<Rightarrow> bool" where
  "sim allow k env p st st' =
     (\<exists>ds. jstep (JSON_stringify env) p (e_fs st) (e_fs st') ds \<and> cancelled_ends ds \<le> k \<and>
           (\<forall>D. (astep allow)\<^sup>*\<^sup>* (abs_state p st, D) (abs_state p st', D @ ds)))"

text \<open>
  What holds of every state the engine reaches, between two of its handlers: the files
  of the session exist, the control part and the order of the turns are as the small
  steps keep them and, as long as no turn was started with the executable missing, the
  turn that can be finalised has a child and the journal is the text of records that
  the small steps can write.
\<close>

definition good :: "bool \<Rightarrow> env \<Rightarrow> session_paths \<Rightarrow> engine \<Rightarrow> bool" where
  "good al env p st =
     (fsok p (e_fs st) \<and> ctrl_inv (abs_state p st) \<and> fifo_inv (abs_state p st) \<and>
      (al \<or> (spawned (abs_state p st) \<and>
             (\<exists>rs. jtext p (e_fs st) = render (JSON_stringify env) rs \<and>
                   journal_inv (abs_state p st, map r_data rs)))))"


section \<open>A serialiser for the worked examples\<close>

text \<open>
  The engine takes \<^verbatim>\<open>JSON.stringify\<close> as a parameter. For the worked examples,
  \<open>stringify_event\<close> stands in for it on the records of the engine: the fields are those
  of the source, in its order, without the time stamps and the token accounting (which
  the model leaves out), message identifiers are printed as the numbers of the model,
  and texts are printed between quotes as they are (the texts of the examples have no
  character that JSON escapes).
\<close>

definition json_string :: "string \<Rightarrow> string" where
  "json_string s = [CHR 0x22] @ s @ [CHR 0x22]"

definition json_bool :: "bool \<Rightarrow> string" where
  "json_bool b = (if b then ''true'' else ''false'')"

fun json_of_role :: "role \<Rightarrow> string" where
  "json_of_role User = json_string ''user''"
| "json_of_role Assistant = json_string ''assistant''"

fun json_of_stop_reason :: "stop_reason \<Rightarrow> string" where
  "json_of_stop_reason EndTurn = json_string ''end_turn''"
| "json_of_stop_reason Error = json_string ''error''"
| "json_of_stop_reason Cancelled = json_string ''cancelled''"

fun json_of_block :: "block \<Rightarrow> string" where
  "json_of_block (TextBlock tx) =
     ''{\"type\":\"text\",\"text\":'' @ json_string tx @ ''}''"
| "json_of_block (ThinkingBlock tx) =
     ''{\"type\":\"thinking\",\"thinking\":'' @ json_string tx @ ''}''"
| "json_of_block (ToolUse toolUseId command) =
     ''{\"type\":\"tool_use\",\"toolUseId\":'' @ json_string toolUseId @
     '',\"toolName\":\"bash\",\"input\":{\"command\":'' @ json_string command @ ''}}''"
| "json_of_block (ToolResult toolUseId content isError charCount) =
     ''{\"type\":\"tool_result\",\"toolUseId\":'' @ json_string toolUseId @
     '',\"content\":'' @ json_string content @ '',\"isError\":'' @ json_bool isError @
     '',\"charCount\":'' @ String (int charCount) @ ''}''"

fun json_of_data :: "event_data \<Rightarrow> string" where
  "json_of_data (MessageStart m lineNumber rl sessionId) =
     ''{\"id\":'' @ String (int m) @ '',\"lineNumber\":'' @ String lineNumber @
     '',\"role\":'' @ json_of_role rl @ '',\"sessionId\":'' @ json_string sessionId @ ''}''"
| "json_of_data (ContentBlock m index b) =
     ''{\"messageId\":'' @ String (int m) @ '',\"index\":'' @ String (int index) @
     '',\"block\":'' @ json_of_block b @ ''}''"
| "json_of_data (MessageEnd m stopReason) =
     ''{\"id\":'' @ String (int m) @ '',\"stopReason\":'' @ json_of_stop_reason stopReason @ ''}''"
| "json_of_data (SessionMeta sessionId dir mdl threadId isActive queueLength) =
     ''{\"provider\":\"codex\",\"sessionId\":'' @ json_string sessionId @
     '',\"cwd\":'' @ json_string dir @ '',\"model\":'' @ json_string mdl @
     '',\"latestThreadId\":'' @ json_string threadId @
     '',\"isActive\":'' @ json_bool isActive @
     '',\"queueLength\":'' @ String (int queueLength) @ ''}''"

definition stringify_event :: "event_data jrecord \<Rightarrow> string" where
  "stringify_event r =
     ''{\"cursor\":'' @ json_string (r_cursor r) @ '',\"event\":'' @ json_string (r_event r) @
     '',\"data\":'' @ json_of_data (r_data r) @ ''}''"

text \<open>An environment and a fresh session for the worked examples.\<close>

definition example_env :: env where
  "example_env =
     \<lparr>JSON_stringify = stringify_event, JSON_parse = parse_record,
      CODEX_MODEL = ''gpt-5.2-codex'', CODEX_MODEL_CHOICES = [''gpt-5.2-codex'', ''gpt-5.2''],
      CODEX_BIN = ''codex''\<rparr>"

definition example_session :: engine where
  "example_session = new_session example_env example_sid ''/tmp''"

definition example_run :: "event list \<Rightarrow> engine" where
  "example_run evs = run_events example_env example_sid example_session evs"



definition example_two_cancels :: "event_data jrecord list" where
  "example_two_cancels = records_of
     [(1, ''message_start'', MessageStart 0 1 User example_sid),
      (2, ''content_block'', ContentBlock 0 0 (TextBlock ''one'')),
      (3, ''message_end'', MessageEnd 0 EndTurn),
      (4, ''session_meta'', SessionMeta example_sid ''/tmp'' ''gpt-5.2-codex'' [] False 1),
      (5, ''message_start'', MessageStart 1 5 User example_sid),
      (6, ''content_block'', ContentBlock 1 0 (TextBlock ''two'')),
      (7, ''message_end'', MessageEnd 1 EndTurn),
      (8, ''session_meta'', SessionMeta example_sid ''/tmp'' ''gpt-5.2-codex'' [] False 2),
      (9, ''session_meta'', SessionMeta example_sid ''/tmp'' ''gpt-5.2-codex'' [] True 1),
      (9, ''message_start'', MessageStart 2 9 Assistant example_sid),
      (10, ''content_block'', ContentBlock 2 0 (TextBlock ''Cancelled.'')),
      (11, ''message_end'', MessageEnd 2 Cancelled),
      (12, ''session_meta'', SessionMeta example_sid ''/tmp'' ''gpt-5.2-codex'' [] False 1),
      (13, ''session_meta'', SessionMeta example_sid ''/tmp'' ''gpt-5.2-codex'' [] False 1),
      (14, ''session_meta'', SessionMeta example_sid ''/tmp'' ''gpt-5.2-codex'' [] True 0),
      (14, ''message_start'', MessageStart 3 14 Assistant example_sid),
      (15, ''content_block'', ContentBlock 3 0 (TextBlock ''Cancelled.'')),
      (16, ''message_end'', MessageEnd 3 Cancelled),
      (17, ''session_meta'', SessionMeta example_sid ''/tmp'' ''gpt-5.2-codex'' [] False 0),
      (18, ''session_meta'', SessionMeta example_sid ''/tmp'' ''gpt-5.2-codex'' [] False 0)]"


section \<open>Results\<close>

subsection \<open>C5: the SSE frame\<close>

text \<open>
  C5 (as amended). For every event kind, cursor text and serialised payload,
  \<open>formatSSE\<close> returns the three lines \<open>id: \<close>, \<open>event: \<close>, \<open>data: \<close> and then exactly
  two line feeds after the content of the data line (one blank line), not three.
\<close>

theorem formatSSE_frame:
  "formatSSE eventType cursor data_json =
     ''id: '' @ cursor @ [nl] @ ''event: '' @ eventType @ [nl] @ ''data: '' @ data_json @ [nl, nl]"
  by (simp add: formatSSE_def)

text \<open>
  The frame of the claim, with three line feeds after the data line, is not what a
  heartbeat frame looks like.
\<close>

theorem formatSSE_three_newlines_counterexample:
  "formatSSE ''heartbeat'' ''heartbeat-0'' ''{}'' \<noteq>
     ''id: '' @ ''heartbeat-0'' @ [nl] @ ''event: '' @ ''heartbeat'' @ [nl] @ ''data: '' @ ''{}'' @ [nl, nl, nl]"
  by (simp add: formatSSE_def)

subsection \<open>C9: the history buffer holds the last part of the output\<close>

lemma slice_last_slice_last_append:
  "slice_last L (slice_last L h @ d) = slice_last L (h @ d)"
proof (cases "length h \<le> L")
  case True
  then show ?thesis by (simp add: slice_last_def)
next
  case False
  then show ?thesis by (simp add: slice_last_def add.commute)
qed

lemma onData_slice_last: "onData L h d = slice_last L (h @ d)"
  unfolding onData_def Let_def slice_last_def by (simp del: drop_append length_append)

lemma foldl_onData_slice_last:
  "foldl (onData L) (slice_last L h) chunks = slice_last L (h @ concat chunks)"
proof (induction chunks arbitrary: h)
  case Nil
  then show ?case by simp
next
  case (Cons d ds)
  have "onData L (slice_last L h) d = slice_last L (h @ d)"
    by (simp add: onData_slice_last slice_last_slice_last_append)
  with Cons.IH [of "h @ d"] show ?case by simp
qed

text \<open>
  C9. After every chunk of every output sequence (every prefix \<open>take n chunks\<close> of the
  chunks), the history is exactly the last \<open>HISTORY_LIMIT\<close> code units of all the output
  produced so far, and all of it when that is shorter: nothing is dropped before the
  limit is passed, and then only from the front. So its length is the smaller of
  \<open>HISTORY_LIMIT\<close> and the length of the output, and it is a suffix of the output.
\<close>

theorem history_bounded_suffix:
  "history_after HISTORY_LIMIT (take n chunks) =
     drop (length (concat (take n chunks)) - HISTORY_LIMIT) (concat (take n chunks)) \<and>
   length (history_after HISTORY_LIMIT (take n chunks)) =
     min HISTORY_LIMIT (length (concat (take n chunks))) \<and>
   length (history_after HISTORY_LIMIT (take n chunks)) \<le> HISTORY_LIMIT \<and>
   suffix (history_after HISTORY_LIMIT (take n chunks)) (concat (take n chunks))"
proof -
  have "history_after HISTORY_LIMIT (take n chunks) =
      slice_last HISTORY_LIMIT (concat (take n chunks))"
    using foldl_onData_slice_last [of HISTORY_LIMIT "[]" "take n chunks"]
    by (simp add: history_after_def slice_last_def)
  then have e: "history_after HISTORY_LIMIT (take n chunks) =
      drop (length (concat (take n chunks)) - HISTORY_LIMIT) (concat (take n chunks))"
    by (simp add: slice_last_def)
  have "length (drop (length (concat (take n chunks)) - HISTORY_LIMIT) (concat (take n chunks))) =
      min HISTORY_LIMIT (length (concat (take n chunks)))"
    unfolding length_drop by arith
  with e show ?thesis by (simp add: suffix_drop del: length_concat length_drop)
qed

subsection \<open>C8: session identifiers\<close>

lemma rx_seq_assoc: "rx_seq (rx_seq a b) c = rx_seq a (rx_seq b c)"
  by (rule ext) (simp add: rx_seq_def split: option.splits)

lemma rx_seq_empty_right: "rx_seq a rx_empty = a"
  by (rule ext) (simp add: rx_seq_def rx_empty_def split: option.splits)

lemma rx_seq_empty_left: "rx_seq rx_empty a = a"
  by (rule ext) (simp add: rx_seq_def rx_empty_def)

text \<open>The pattern of the code is the pattern of the specification read without regard to case.\<close>

lemma UUID_PATTERN_spec_shape: "UUID_PATTERN = spec_uuid_pattern True"
  by (simp add: UUID_PATTERN_def spec_uuid_pattern_def rx_seqs_def eval_nat_numeral
      rx_seq_assoc rx_seq_empty_right rx_seq_empty_left)

lemma example_paths: "getSessionPaths example_sid = Inr example_paths"
  by code_simp

text \<open>
  C8 (as amended). Validation accepts an identifier exactly when it matches the pattern
  \<^verbatim>\<open>^[a-f0-9]{8}-([a-f0-9]{4}-){3}[a-f0-9]{12}$\<close> without regard to case, and for
  every identifier that does not, each operation that resolves the session's paths
  fails with \<open>INVALID_SESSION_ID\<close>.
\<close>

theorem session_id_validation:
  "(validateSessionId s = Inr ()) = rx_test (spec_uuid_pattern True) s \<and>
   (\<not> rx_test (spec_uuid_pattern True) s \<longrightarrow>
      getSessionPaths s = Inl INVALID_SESSION_ID \<and>
      readSessionMeta fs s = Inl INVALID_SESSION_ID \<and>
      writeSessionMeta fs s m = Inl INVALID_SESSION_ID \<and>
      touchEventLog fs s = Inl INVALID_SESSION_ID \<and>
      updateSessionMeta fs s updates = Inl INVALID_SESSION_ID \<and>
      createCodexSession fs s dir mdl = Inl INVALID_SESSION_ID \<and>
      createEventWriter parse fs s = Inl INVALID_SESSION_ID)"
  by (simp add: validateSessionId_def getSessionPaths_def readSessionMeta_def
      writeSessionMeta_def touchEventLog_def updateSessionMeta_def createCodexSession_def
      createEventWriter_def UUID_PATTERN_spec_shape Let_def)

theorem session_id_validation_witness:
  "\<not> rx_test (spec_uuid_pattern True) ''main'' \<and>
   validateSessionId ''main'' = Inl INVALID_SESSION_ID \<and>
   getSessionPaths ''main'' = Inl INVALID_SESSION_ID \<and>
   readSessionMeta (example_fs (Some 0) []) ''main'' = Inl INVALID_SESSION_ID \<and>
   createEventWriter Map.empty (example_fs (Some 0) []) ''main'' = Inl INVALID_SESSION_ID"
proof -
  have h: "\<not> rx_test (spec_uuid_pattern True) ''main''"
    by code_simp
  have v: "validateSessionId ''main'' = Inl INVALID_SESSION_ID"
    by code_simp
  from session_id_validation [of "''main''" "example_fs (Some 0) []" _ _ _ _ Map.empty] h v
  show ?thesis by simp
qed

text \<open>
  An identifier in upper case passes the validation of the code and does not match the
  lower-case pattern of the claim.
\<close>

theorem session_id_uppercase_counterexample:
  "validateSessionId ''0123ABCD-0123-4567-89AB-0123456789AB'' = Inr () \<and>
   \<not> rx_test (spec_uuid_pattern False) ''0123ABCD-0123-4567-89AB-0123456789AB''"
  by code_simp

subsection \<open>C2: the writer\<close>

lemma render_append: "render S (xs @ ys) = render S xs @ render S ys"
  by (simp add: render_def)

lemma records_of_append: "records_of (xs @ ys) = records_of xs @ records_of ys"
  by (simp add: records_of_def)

lemma plus1_safe: "- (2 ^ 53) \<le> x \<Longrightarrow> x < 2 ^ 53 \<Longrightarrow> plus1 x = x + 1"
  by (simp add: plus1_def)

lemma append_effect:
  "append S fs w ev d =
     (fs\<lparr>journals := (journals fs)(w_jsonlPath w \<mapsto>
            (case journals fs (w_jsonlPath w) of None \<Rightarrow> [] | Some old \<Rightarrow> old) @
            S \<lparr>r_cursor = String (plus1 (w_cursor w)), r_event = ev, r_data = d\<rparr> @ [nl])\<rparr>,
      w\<lparr>w_cursor := plus1 (w_cursor w)\<rparr>, plus1 (w_cursor w))"
  by (simp add: append_def appendFileSync_def Let_def split: option.splits)

lemma appends_effect:
  "appends S fs w evs = (fs1, w1, cs) \<Longrightarrow> journals fs (w_jsonlPath w) = Some old \<Longrightarrow>
   - (2 ^ 53) \<le> w_cursor w \<Longrightarrow> w_cursor w + int (length evs) \<le> 2 ^ 53 \<Longrightarrow>
   cs = map (\<lambda>i. w_cursor w + 1 + int i) [0..<length evs] \<and>
   w1 = w\<lparr>w_cursor := w_cursor w + int (length evs)\<rparr> \<and>
   sidecars fs1 = sidecars fs \<and>
   journals fs1 (w_jsonlPath w) = Some (old @ render S (records_of (zip cs evs)))"
proof (induction evs arbitrary: fs w cs old fs1 w1)
  case Nil
  then show ?case by (simp add: render_def records_of_def)
next
  case (Cons x evs)
  obtain ev d where x: "x = (ev, d)" by (cases x)
  obtain fsa wa c where a: "append S fs w ev d = (fsa, wa, c)" by (cases "append S fs w ev d")
  obtain fsb wb cs' where b: "appends S fsa wa evs = (fsb, wb, cs')" by (cases "appends S fsa wa evs")
  from Cons.prems(1) x a b have r: "fs1 = fsb" "w1 = wb" "cs = c # cs'" by simp_all
  from Cons.prems(3,4) have p1: "plus1 (w_cursor w) = w_cursor w + 1"
    by (intro plus1_safe) simp_all
  from a have a': "fsa = fs\<lparr>journals := (journals fs)(w_jsonlPath w \<mapsto>
            old @ S \<lparr>r_cursor = String (w_cursor w + 1), r_event = ev, r_data = d\<rparr> @ [nl])\<rparr>"
     "wa = w\<lparr>w_cursor := w_cursor w + 1\<rparr>" "c = w_cursor w + 1"
    using Cons.prems(2) by (auto simp add: append_effect p1)
  have j: "journals fsa (w_jsonlPath wa) = Some (old @ S \<lparr>r_cursor = String (w_cursor w + 1), r_event = ev, r_data = d\<rparr> @ [nl])"
    by (simp add: a')
  have b1: "- (2 ^ 53) \<le> w_cursor wa" using Cons.prems(3) by (simp add: a')
  have b2: "w_cursor wa + int (length evs) \<le> 2 ^ 53" using Cons.prems(4) by (simp add: a')
  note ih = Cons.IH [OF b j b1 b2]
  show ?case using ih
    by (simp add: r a' x render_def records_of_def map_upt_Suc add.assoc add.commute del: upt_Suc)
qed

lemma createEventWriter_finite:
  "getSessionPaths sid = Inr p \<Longrightarrow> sidecars fs0 (metaPath p) = Some m \<Longrightarrow>
   lastCursor m = Some c0 \<Longrightarrow> journals fs0 (jsonlPath p) = Some txt \<Longrightarrow>
   createEventWriter parse fs0 sid =
     Inr (fs0, \<lparr>w_meta = m, w_metaPath = metaPath p, w_jsonlPath = jsonlPath p, w_cursor = c0\<rparr>)"
  by (simp add: createEventWriter_def Let_def)

lemma commit_effect:
  "commit fs w updates =
     (fs\<lparr>sidecars := (sidecars fs)(w_metaPath w \<mapsto> updates ((w_meta w)\<lparr>lastCursor := Some (w_cursor w)\<rparr>))\<rparr>,
      w\<lparr>w_meta := updates ((w_meta w)\<lparr>lastCursor := Some (w_cursor w)\<rparr>)\<rparr>)"
  by (simp add: commit_def Let_def)

lemma Max_cursors:
  assumes "list_all (\<lambda>(k, ev, d). k \<le> c0) old" and "n > 0"
    and "cs = map (\<lambda>i. c0 + 1 + int i) [0..<n]" and "length evs = n"
  shows "last cs = c0 + int n \<and> Max (set (map fst (old @ zip cs evs))) = c0 + int n"
proof -
  from assms obtain k where n: "n = Suc k" by (cases n) auto
  have l: "last cs = c0 + int n" using assms(3) by (simp add: n)
  have len: "length cs = length evs" using assms by simp
  have s: "set (map fst (old @ zip cs evs)) = fst ` set old \<union> set cs"
    using len by (simp add: image_Un)
  have "Max (fst ` set old \<union> set cs) = c0 + int n"
  proof (rule Max_eqI)
    show "finite (fst ` set old \<union> set cs)" by simp
    show "c0 + int n \<in> fst ` set old \<union> set cs"
      using assms(3) by (auto simp: n image_iff)
    fix y assume "y \<in> fst ` set old \<union> set cs"
    then show "y \<le> c0 + int n"
      using assms(1) assms(3) by (auto simp: list_all_iff)
  qed
  with l s show ?thesis by simp
qed

text \<open>
  C2. Every \<open>append\<close> adds one to the cursor of the writer, appends the line of the
  record with the new cursor, ended by a line feed, to the journal, and returns the new
  cursor. For a writer opened on a session whose journal consists of the lines of the
  records \<open>old\<close>, none of them ahead of the sidecar's \<open>lastCursor\<close> (the journal has had
  one writer at a time, each committing before the next opened), after the appends
  \<open>evs\<close> (at least one) and \<open>commit()\<close> the cursors returned are \<open>c0 + 1, c0 + 2, ...\<close>,
  the journal holds one more line per append, and the \<open>lastCursor\<close> of the sidecar is the
  last cursor returned, which is the greatest cursor of a record in the journal. All
  this as long as the cursors stay among the whole numbers that doubles count without
  gaps, from \<open>- 2^53\<close> to \<open>2^53\<close>; the cursor of a writer at \<open>2^53\<close> no longer advances.
\<close>

theorem writer_append_commit:
  assumes "getSessionPaths sid = Inr p"
    and "sidecars fs0 (metaPath p) = Some m" and "lastCursor m = Some c0"
    and "journals fs0 (jsonlPath p) = Some (render S (records_of old))"
    and "list_all (\<lambda>(k, ev, d). k \<le> c0) old"
    and "createEventWriter parse fs0 sid = Inr (fs, w)"
    and "appends S fs w evs = (fs1, w1, cs)"
    and "commit fs1 w1 id = (fs2, w2)"
    and "evs \<noteq> []"
    and "- (2 ^ 53) \<le> c0" and "c0 + int (length evs) \<le> 2 ^ 53"
    and "- (2 ^ 53) \<le> w_cursor wa" and "w_cursor wa < 2 ^ 53"
  shows "append S fa wa ev d =
           (appendFileSync fa (w_jsonlPath wa)
              (S \<lparr>r_cursor = String (w_cursor wa + 1), r_event = ev, r_data = d\<rparr> @ [nl]),
            wa\<lparr>w_cursor := w_cursor wa + 1\<rparr>, w_cursor wa + 1) \<and>
         cs = map (\<lambda>i. c0 + 1 + int i) [0..<length evs] \<and>
         journals fs2 (jsonlPath p) = Some (render S (records_of (old @ zip cs evs))) \<and>
         map_option lastCursor (sidecars fs2 (metaPath p)) = Some (Some (last cs)) \<and>
         last cs = Max (set (map fst (old @ zip cs evs)))"
proof -
  from assms(1-4,6) have w: "fs = fs0"
    "w = \<lparr>w_meta = m, w_metaPath = metaPath p, w_jsonlPath = jsonlPath p, w_cursor = c0\<rparr>"
    by (simp_all add: createEventWriter_finite)
  have j: "journals fs (w_jsonlPath w) = Some (render S (records_of old))"
    using assms(4) by (simp add: w)
  have b: "- (2 ^ 53) \<le> w_cursor w" "w_cursor w + int (length evs) \<le> 2 ^ 53"
    using assms(10,11) by (simp_all add: w)
  from appends_effect [OF assms(7) j b]
  have a: "cs = map (\<lambda>i. c0 + 1 + int i) [0..<length evs]"
    "w1 = w\<lparr>w_cursor := c0 + int (length evs)\<rparr>"
    "sidecars fs1 = sidecars fs"
    "journals fs1 (jsonlPath p) = Some (render S (records_of old) @ render S (records_of (zip cs evs)))"
    by (simp_all add: w)
  from assms(8) have c: "fs2 = fs1\<lparr>sidecars := (sidecars fs1)(metaPath p \<mapsto> m\<lparr>lastCursor := Some (c0 + int (length evs))\<rparr>)\<rparr>"
    by (simp add: commit_effect a w)
  from Max_cursors [OF assms(5) _ a(1) refl] assms(9)
  have mx: "last cs = c0 + int (length evs)" "Max (set (map fst (old @ zip cs evs))) = c0 + int (length evs)"
    by simp_all
  have p1: "plus1 (w_cursor wa) = w_cursor wa + 1"
    by (rule plus1_safe [OF assms(12,13)])
  show ?thesis
    using a(1) a(4) mx
    by (simp add: append_def Let_def c render_append records_of_append p1)
qed

text \<open>
  The theorem at a journal with the records 1 and 2 and a sidecar at 2: two appends
  return 3 and 4, and the commit stores 4.
\<close>

theorem writer_append_commit_witness:
  "snd (snd (appends stringify_record
       (example_fs (Some 2) (render stringify_record (records_of example_old)))
       \<lparr>w_meta = example_meta (Some 2), w_metaPath = metaPath example_paths,
        w_jsonlPath = jsonlPath example_paths, w_cursor = 2\<rparr>
       [(''message_start'', ''{}''), (''message_end'', ''{}'')])) = [3, 4] \<and>
   map_option lastCursor
     (sidecars
        (fst (commit
           (fst (appends stringify_record
              (example_fs (Some 2) (render stringify_record (records_of example_old)))
              \<lparr>w_meta = example_meta (Some 2), w_metaPath = metaPath example_paths,
               w_jsonlPath = jsonlPath example_paths, w_cursor = 2\<rparr>
              [(''message_start'', ''{}''), (''message_end'', ''{}'')]))
           (fst (snd (appends stringify_record
              (example_fs (Some 2) (render stringify_record (records_of example_old)))
              \<lparr>w_meta = example_meta (Some 2), w_metaPath = metaPath example_paths,
               w_jsonlPath = jsonlPath example_paths, w_cursor = 2\<rparr>
              [(''message_start'', ''{}''), (''message_end'', ''{}'')])))
           id))
        (metaPath example_paths)) = Some (Some 4)"
proof -
  let ?fs = "example_fs (Some 2) (render stringify_record (records_of example_old))"
  let ?w = "\<lparr>w_meta = example_meta (Some 2), w_metaPath = metaPath example_paths,
        w_jsonlPath = jsonlPath example_paths, w_cursor = 2\<rparr>"
  let ?evs = "[(''message_start'', ''{}''), (''message_end'', ''{}'')]"
  let ?A = "appends stringify_record ?fs ?w ?evs"
  let ?B = "commit (fst ?A) (fst (snd ?A)) id"
  have 2: "sidecars ?fs (metaPath example_paths) = Some (example_meta (Some 2))"
    by (simp add: example_fs_def)
  have 3: "lastCursor (example_meta (Some 2)) = Some 2"
    by (simp add: example_meta_def)
  have 4: "journals ?fs (jsonlPath example_paths) = Some (render stringify_record (records_of example_old))"
    by (simp add: example_fs_def)
  have 5: "list_all (\<lambda>(k, ev, d). k \<le> 2) example_old"
    by (simp add: example_old_def)
  have 6: "createEventWriter Map.empty ?fs example_sid = Inr (?fs, ?w)"
    using createEventWriter_finite [OF example_paths 2 3 4] .
  have 7: "?A = (fst ?A, fst (snd ?A), snd (snd ?A))" by simp
  have 8: "?B = (fst ?B, snd ?B)" by simp
  have 9: "?evs \<noteq> []" by simp
  have 10: "- (2 ^ 53) \<le> (2 :: int)" by simp
  have 11: "(2 :: int) + int (length ?evs) \<le> 2 ^ 53" by simp
  have 12: "- (2 ^ 53) \<le> w_cursor ?w" by simp
  have 13: "w_cursor ?w < 2 ^ 53" by simp
  note t = writer_append_commit [OF example_paths 2 3 4 5 6 7 8 9 10 11 12 13]
  from t have c: "snd (snd ?A) = map (\<lambda>i. 2 + 1 + int i) [0..<length ?evs]"
    by blast
  from t have l: "map_option lastCursor (sidecars (fst ?B) (metaPath example_paths)) =
      Some (Some (last (snd (snd ?A))))"
    by blast
  have c': "snd (snd ?A) = [3, 4]"
    by (subst c) (simp add: upt_rec)
  show ?thesis
    by (subst c', subst l, subst c') simp
qed

text \<open>
  Beyond that range the cursor does not count: for a writer at \<open>2^53\<close>, \<open>append\<close> returns
  \<open>2^53\<close> again.
\<close>

lemma append_at_2_53:
  "snd (snd (append S fs (w\<lparr>w_cursor := 2 ^ 53\<rparr>) ev d)) = 2 ^ 53"
  by (simp add: append_effect plus1_def)


subsection \<open>C6: recovery of the cursor\<close>

















subsection \<open>Invariants of the small steps\<close>

lemma aq_simps [simp]:
  "aq (a\<lparr>a_queue := Some q\<rparr>) = q"
  "aq (a\<lparr>a_nextId := n\<rparr>) = aq a"
  "aq (a\<lparr>a_runs := rs\<rparr>) = aq a"
  "aq (a\<lparr>a_active := b\<rparr>) = aq a"
  "aq (a\<lparr>a_proc := pr\<rparr>) = aq a"
  "aq (a\<lparr>a_finalize := f\<rparr>) = aq a"
  by (simp_all add: aq_def)

lemma map_turn_update:
  "a_turn y = a_turn (xs ! k) \<Longrightarrow> map a_turn (xs[k := y]) = map a_turn xs"
  by (induction xs arbitrary: k) (auto split: nat.splits)


lemma fifo_inv_keys:
  "fifo_inv a = (sorted_wrt (<) (keys a) \<and> (\<forall>k\<in>set (keys a). k < a_nextId a))"
  by (auto simp: fifo_inv_def keys_def list_all_iff)

lemma fifo_inv_step:
  "astep allow x y \<Longrightarrow> fifo_inv (fst x) \<Longrightarrow> fifo_inv (fst y)"
proof (induction rule: astep.induct)
  case (A_meta d allow a ds)
  then show ?case by simp
next
  case (A_qnorm allow a ds)
  then show ?case by (simp add: fifo_inv_keys keys_def)
next
  case (A_qclear allow a ds)
  then show ?case by (simp add: fifo_inv_keys keys_def sorted_wrt_append)
next
  case (A_message allow a ds ln rl sid i b)
  then show ?case by (simp add: fifo_inv_keys keys_def less_SucI)
next
  case (A_submit t a allow ds ln rl sid i b)
  then have k: "keys (a\<lparr>a_nextId := Suc (a_nextId a), a_queue := Some (aq a @ [t])\<rparr>) = keys a @ [a_nextId a]"
    by (simp add: keys_def)
  from A_submit show ?case
    unfolding fst_conv fifo_inv_keys k by (auto simp: sorted_wrt_append)
next
  case (A_start allow a t rest ds)
  then have k: "keys (a\<lparr>a_active := True, a_finalize := Some (length (a_runs a)), a_queue := Some rest,
          a_nextId := Suc (a_nextId a),
          a_runs := a_runs a @ [\<lparr>a_mid = a_nextId a, a_finished = False, a_child = None,
                                  a_turn = t, a_wpaths = True\<rparr>]\<rparr>) = keys a"
    by (simp add: keys_def)
  from A_start show ?case
    unfolding fst_conv fifo_inv_keys k by (auto simp: less_SucI)
next
  case (A_begin a t rest allow ds ln rl sid)
  then have k: "keys (a\<lparr>a_active := True, a_finalize := Some (length (a_runs a)), a_queue := Some rest,
          a_nextId := Suc (a_nextId a), a_proc := Some (length (a_runs a)),
          a_runs := a_runs a @ [\<lparr>a_mid = a_nextId a, a_finished = False, a_child = Some False,
                                  a_turn = t, a_wpaths = True\<rparr>]\<rparr>) = keys a"
    by (simp add: keys_def)
  from A_begin show ?case
    unfolding fst_conv fifo_inv_keys k by (auto simp: less_SucI)
next
  case (A_drop a t rest allow ds)
  then have k: "keys a = map t_userMessageId (map a_turn (a_runs a)) @ t_userMessageId t # map t_userMessageId rest"
    "keys (a\<lparr>a_queue := Some rest\<rparr>) = map t_userMessageId (map a_turn (a_runs a)) @ map t_userMessageId rest"
    by (simp_all add: keys_def)
  from A_drop show ?case
    unfolding fst_conv fifo_inv_keys k by (auto simp: sorted_wrt_append)
next
  case (A_block rid a allow ds i b)
  then show ?case by simp
next
  case (A_finalize rid a allow blocks i b ds stopReason)
  then show ?case by (simp add: fifo_inv_keys keys_def map_turn_update)
next
  case (A_kill rid a allow ds)
  then show ?case by (simp add: fifo_inv_keys keys_def map_turn_update)
qed

lemma ctrl_idle:
  assumes c: "ctrl_inv a" and na: "\<not> a_active a"
  shows "a_finalize a = None" and "a_proc a = None"
    and "\<forall>rid < length (a_runs a). a_finished (a_runs a ! rid)"
proof -
  from c na show f: "a_finalize a = None"
    unfolding ctrl_inv_def by simp
  from c f show "a_proc a = None"
    unfolding ctrl_inv_def by (cases "a_proc a") simp_all
  from c f show "\<forall>rid < length (a_runs a). a_finished (a_runs a ! rid)"
    unfolding ctrl_inv_def by auto
qed

lemma ctrl_wp: "ctrl_inv a \<Longrightarrow> list_all a_wpaths (a_runs a)"
  unfolding ctrl_inv_def by simp

lemma ctrl_start:
  assumes c: "ctrl_inv a" and na: "\<not> a_active a"
  shows "ctrl_inv (a\<lparr>a_active := True, a_finalize := Some (length (a_runs a)), a_queue := q,
          a_nextId := n,
          a_runs := a_runs a @ [\<lparr>a_mid = m, a_finished = False, a_child = None,
                                  a_turn = t, a_wpaths = True\<rparr>]\<rparr>)"
  using ctrl_idle [OF c na] ctrl_wp [OF c]
  unfolding ctrl_inv_def
  by (simp add: nth_append less_Suc_eq)

lemma upd_child_nth [simp]:
  "a_finished (xs[k := (xs ! k)\<lparr>a_child := c\<rparr>] ! j) = a_finished (xs ! j)"
  "a_wpaths (xs[k := (xs ! k)\<lparr>a_child := c\<rparr>] ! j) = a_wpaths (xs ! j)"
  "a_mid (xs[k := (xs ! k)\<lparr>a_child := c\<rparr>] ! j) = a_mid (xs ! j)"
proof -
  show "a_finished (xs[k := (xs ! k)\<lparr>a_child := c\<rparr>] ! j) = a_finished (xs ! j)"
    by (cases "k < length xs"; cases "j = k"; simp add: list_update_beyond)
  show "a_wpaths (xs[k := (xs ! k)\<lparr>a_child := c\<rparr>] ! j) = a_wpaths (xs ! j)"
    by (cases "k < length xs"; cases "j = k"; simp add: list_update_beyond)
  show "a_mid (xs[k := (xs ! k)\<lparr>a_child := c\<rparr>] ! j) = a_mid (xs ! j)"
    by (cases "k < length xs"; cases "j = k"; simp add: list_update_beyond)
qed

lemma upd_finished_nth [simp]:
  "a_wpaths (xs[k := (xs ! k)\<lparr>a_finished := c\<rparr>] ! j) = a_wpaths (xs ! j)"
  "a_mid (xs[k := (xs ! k)\<lparr>a_finished := c\<rparr>] ! j) = a_mid (xs ! j)"
  "a_child (xs[k := (xs ! k)\<lparr>a_finished := c\<rparr>] ! j) = a_child (xs ! j)"
proof -
  show "a_wpaths (xs[k := (xs ! k)\<lparr>a_finished := c\<rparr>] ! j) = a_wpaths (xs ! j)"
    by (cases "k < length xs"; cases "j = k"; simp add: list_update_beyond)
  show "a_mid (xs[k := (xs ! k)\<lparr>a_finished := c\<rparr>] ! j) = a_mid (xs ! j)"
    by (cases "k < length xs"; cases "j = k"; simp add: list_update_beyond)
  show "a_child (xs[k := (xs ! k)\<lparr>a_finished := c\<rparr>] ! j) = a_child (xs ! j)"
    by (cases "k < length xs"; cases "j = k"; simp add: list_update_beyond)
qed

lemma upd_finished_same:
  "k < length xs \<Longrightarrow>
   a_finished (xs[k := (xs ! k)\<lparr>a_finished := c\<rparr>] ! j) = (if j = k then c else a_finished (xs ! j))"
  by simp

lemma upd_child_same:
  "k < length xs \<Longrightarrow>
   a_child (xs[k := (xs ! k)\<lparr>a_child := c\<rparr>] ! j) = (if j = k then c else a_child (xs ! j))"
  by simp

lemma ctrl_spawn:
  assumes c: "ctrl_inv a" and f: "a_finalize a = Some rid" and l: "rid < length (a_runs a)"
  shows "ctrl_inv (a\<lparr>a_proc := Some rid,
          a_runs := (a_runs a)[rid := (a_runs a ! rid)\<lparr>a_child := Some False\<rparr>]\<rparr>)"
  using c f unfolding ctrl_inv_def
  by (simp add: list_all_length)

lemma ctrl_finalize:
  assumes c: "ctrl_inv a" and l: "rid < length (a_runs a)" and u: "\<not> a_finished (a_runs a ! rid)"
  shows "ctrl_inv (a\<lparr>a_active := False, a_proc := None, a_finalize := None,
          a_runs := (a_runs a)[rid := (a_runs a ! rid)\<lparr>a_finished := True\<rparr>]\<rparr>)"
proof -
  from c l u have f: "a_finalize a = Some rid"
    unfolding ctrl_inv_def by blast
  from c f have fin: "\<forall>k < length (a_runs a). k \<noteq> rid \<longrightarrow> a_finished (a_runs a ! k)"
    unfolding ctrl_inv_def by auto
  show ?thesis
    using fin ctrl_wp [OF c] l unfolding ctrl_inv_def
    by (simp add: upd_finished_same list_all_length)
qed

lemma ctrl_kill:
  "ctrl_inv (a\<lparr>a_runs := (a_runs a)[rid := (a_runs a ! rid)\<lparr>a_child := c\<rparr>]\<rparr>) = ctrl_inv a"
  unfolding ctrl_inv_def by (simp add: list_all_length)

lemma ctrl_begin:
  assumes c: "ctrl_inv a" and na: "\<not> a_active a"
  shows "ctrl_inv (a\<lparr>a_active := True, a_finalize := Some (length (a_runs a)), a_queue := q,
          a_nextId := n, a_proc := Some (length (a_runs a)),
          a_runs := a_runs a @ [\<lparr>a_mid = m, a_finished = False, a_child = Some False,
                                  a_turn = t, a_wpaths = True\<rparr>]\<rparr>)"
proof -
  let ?a = "a\<lparr>a_active := True, a_finalize := Some (length (a_runs a)), a_queue := q,
          a_nextId := n,
          a_runs := a_runs a @ [\<lparr>a_mid = m, a_finished = False, a_child = None,
                                  a_turn = t, a_wpaths = True\<rparr>]\<rparr>"
  have "ctrl_inv ?a" by (rule ctrl_start [OF c na])
  from ctrl_spawn [OF this, of "length (a_runs a)"] show ?thesis by simp
qed

lemma ctrl_inv_cong:
  "a_finalize a' = a_finalize a \<Longrightarrow> a_proc a' = a_proc a \<Longrightarrow> a_active a' = a_active a \<Longrightarrow>
   a_runs a' = a_runs a \<Longrightarrow> ctrl_inv a' = ctrl_inv a"
  by (simp add: ctrl_inv_def)

lemma ctrl_inv_step:
  "astep allow x y \<Longrightarrow> ctrl_inv (fst x) \<Longrightarrow> ctrl_inv (fst y)"
proof (induction rule: astep.induct)
  case (A_start allow a t rest ds)
  then have "ctrl_inv a" "\<not> a_active a" by simp_all
  then show ?case unfolding fst_conv by (rule ctrl_start)
next
  case (A_begin a t rest allow ds ln rl sid)
  then have "ctrl_inv a" "\<not> a_active a" by simp_all
  then show ?case unfolding fst_conv by (rule ctrl_begin)
next
  case (A_finalize rid a allow blocks i b ds stopReason)
  then have "ctrl_inv a" "rid < length (a_runs a)" "\<not> a_finished (a_runs a ! rid)" by simp_all
  then show ?case unfolding fst_conv by (rule ctrl_finalize)
next
  case (A_kill rid a allow ds)
  then show ?case by (simp add: ctrl_kill)
next
  case (A_meta d allow a ds)
  then show ?case by simp
next
  case (A_qnorm allow a ds)
  then show ?case unfolding fst_conv by (subst ctrl_inv_cong [of _ a]) simp_all
next
  case (A_qclear allow a ds)
  then show ?case unfolding fst_conv by (subst ctrl_inv_cong [of _ a]) simp_all
next
  case (A_message allow a ds ln rl sid i b)
  then show ?case unfolding fst_conv by (subst ctrl_inv_cong [of _ a]) simp_all
next
  case (A_submit t a allow ds ln rl sid i b)
  then show ?case unfolding fst_conv by (subst ctrl_inv_cong [of _ a]) simp_all
next
  case (A_drop a t rest allow ds)
  then show ?case unfolding fst_conv by (subst ctrl_inv_cong [of _ a]) simp_all
next
  case (A_block rid a allow ds i b)
  then show ?case by simp
qed

lemma phases_snoc: "phases s (ds @ [d]) = track s (phases s ds) d"
  by (simp add: phases_def)

lemma track_MS:
  "track s x (MessageStart m l r sid) = ((fst x)(m \<mapsto> Started), snd x \<and> fst x m = None)"
  by (cases x) simp

lemma track_CB:
  "track s x (ContentBlock m i b) =
     (fst x, snd x \<and> (if s then fst x m = Some Started else fst x m \<noteq> None))"
  by (cases x) simp

lemma track_ME:
  "track s x (MessageEnd m r) = ((fst x)(m \<mapsto> Ended), snd x \<and> fst x m = Some Started)"
  by (cases x) simp

lemma track_meta: "is_meta d \<Longrightarrow> track s x d = x"
  by (cases x; cases d) simp_all

lemma snoc_MS:
  "phase_of (ds @ [MessageStart m l r sid]) = (phase_of ds)(m \<mapsto> Started)"
  "messages_wf False (ds @ [MessageStart m l r sid]) = (messages_wf False ds \<and> phase_of ds m = None)"
  by (simp_all add: phase_of_def messages_wf_def phases_snoc track_MS fun_eq_iff)

lemma snoc_CB:
  "phase_of (ds @ [ContentBlock m i b]) = phase_of ds"
  "messages_wf False (ds @ [ContentBlock m i b]) = (messages_wf False ds \<and> phase_of ds m \<noteq> None)"
  by (simp_all add: phase_of_def messages_wf_def phases_snoc track_CB fun_eq_iff)

lemma snoc_ME:
  "phase_of (ds @ [MessageEnd m r]) = (phase_of ds)(m \<mapsto> Ended)"
  "messages_wf False (ds @ [MessageEnd m r]) = (messages_wf False ds \<and> phase_of ds m = Some Started)"
  by (simp_all add: phase_of_def messages_wf_def phases_snoc track_ME fun_eq_iff)

lemma snoc_meta:
  "is_meta d \<Longrightarrow> phase_of (ds @ [d]) = phase_of ds"
  "is_meta d \<Longrightarrow> messages_wf False (ds @ [d]) = messages_wf False ds"
  by (simp_all add: phase_of_def messages_wf_def phases_snoc track_meta fun_eq_iff)

lemma journal_inv_unfold:
  "journal_inv (a, ds) =
     (messages_wf False ds \<and>
        (\<forall>m. phase_of ds m \<noteq> None \<longrightarrow> m < a_nextId a) \<and>
        distinct (map a_mid (a_runs a)) \<and>
        (\<forall>i < length (a_runs a).
           a_mid (a_runs a ! i) < a_nextId a \<and>
           phase_of ds (a_mid (a_runs a ! i)) =
             (if a_finished (a_runs a ! i) then Some Ended
              else if a_child (a_runs a ! i) = None then None else Some Started)) \<and>
        (\<forall>m. phase_of ds m = Some Started \<longrightarrow>
           (\<exists>i < length (a_runs a). a_mid (a_runs a ! i) = m \<and> \<not> a_finished (a_runs a ! i))))"
  by (simp add: journal_inv_def)

lemma jinv_fresh: "journal_inv (a, ds) \<Longrightarrow> phase_of ds (a_nextId a) = None"
  unfolding journal_inv_unfold by (cases "phase_of ds (a_nextId a)") auto

lemma jinv_cong:
  "journal_inv (a, ds) \<Longrightarrow> a_runs a' = a_runs a \<Longrightarrow> a_nextId a' = a_nextId a \<Longrightarrow>
   journal_inv (a', ds)"
  unfolding journal_inv_unfold by simp

lemma jinv_meta:
  "journal_inv (a, ds) \<Longrightarrow> is_meta d \<Longrightarrow> journal_inv (a, ds @ [d])"
  unfolding journal_inv_unfold by (simp add: snoc_meta)

lemma jinv_message:
  assumes j: "journal_inv (a, ds)" and r: "a_runs a' = a_runs a"
    and n: "a_nextId a' = Suc (a_nextId a)"
  shows "journal_inv (a', ds @ [MessageStart (a_nextId a) ln rl sid,
            ContentBlock (a_nextId a) i b, MessageEnd (a_nextId a) EndTurn])"
proof -
  let ?n = "a_nextId a"
  let ?ds = "((ds @ [MessageStart ?n ln rl sid]) @ [ContentBlock ?n i b]) @ [MessageEnd ?n EndTurn]"
  have f: "phase_of ds ?n = None" by (rule jinv_fresh [OF j])
  have p: "phase_of ?ds = (phase_of ds)(?n \<mapsto> Ended)"
    unfolding snoc_ME snoc_CB snoc_MS by simp
  have w: "messages_wf False ?ds = messages_wf False ds"
    unfolding snoc_ME snoc_CB snoc_MS using f by simp
  have "journal_inv (a', ?ds)"
    using j f unfolding journal_inv_unfold p w r n
    by (auto simp: less_Suc_eq)
  then show ?thesis by simp
qed

lemma jinv_start:
  assumes j: "journal_inv (a, ds)"
    and r: "a_runs a' = a_runs a @ [\<lparr>a_mid = a_nextId a, a_finished = False, a_child = None,
                                  a_turn = t, a_wpaths = True\<rparr>]"
    and n: "a_nextId a' = Suc (a_nextId a)"
  shows "journal_inv (a', ds)"
proof -
  have f: "phase_of ds (a_nextId a) = None" by (rule jinv_fresh [OF j])
  from j have lt: "\<forall>i < length (a_runs a). a_mid (a_runs a ! i) < a_nextId a"
    unfolding journal_inv_unfold by blast
  then have ni: "a_nextId a \<notin> set (map a_mid (a_runs a))"
    by (auto simp: in_set_conv_nth)
  show ?thesis
    using j f ni unfolding journal_inv_unfold r n
    by (auto simp: less_Suc_eq nth_append)
qed

lemma jinv_mids:
  assumes j: "journal_inv (a, ds)" and i: "i < length (a_runs a)" and k: "k < length (a_runs a)"
    and e: "a_mid (a_runs a ! i) = a_mid (a_runs a ! k)"
  shows "i = k"
proof -
  from j have "distinct (map a_mid (a_runs a))"
    unfolding journal_inv_unfold by blast
  with i k e show ?thesis
    by (auto simp: distinct_conv_nth)
qed

lemma distinct_mid_upd_child:
  "distinct (map a_mid (xs[k := (xs ! k)\<lparr>a_child := c\<rparr>])) = distinct (map a_mid xs)"
proof -
  have "map a_mid (xs[k := (xs ! k)\<lparr>a_child := c\<rparr>]) = map a_mid xs"
    by (rule nth_equalityI) simp_all
  then show ?thesis by simp
qed

lemma distinct_mid_upd_finished:
  "distinct (map a_mid (xs[k := (xs ! k)\<lparr>a_finished := c\<rparr>])) = distinct (map a_mid xs)"
proof -
  have "map a_mid (xs[k := (xs ! k)\<lparr>a_finished := c\<rparr>]) = map a_mid xs"
    by (rule nth_equalityI) simp_all
  then show ?thesis by simp
qed

lemma jinv_spawn:
  assumes j: "journal_inv (a, ds)" and l: "rid < length (a_runs a)"
    and c: "a_child (a_runs a ! rid) = None" and u: "\<not> a_finished (a_runs a ! rid)"
    and r: "a_runs a' = (a_runs a)[rid := (a_runs a ! rid)\<lparr>a_child := Some False\<rparr>]"
    and n: "a_nextId a' = a_nextId a"
  shows "journal_inv (a', ds @ [MessageStart (a_mid (a_runs a ! rid)) ln rl sid])"
proof -
  from j l c u have f: "phase_of ds (a_mid (a_runs a ! rid)) = None"
    unfolding journal_inv_unfold by simp
  have d: "\<And>i. i < length (a_runs a) \<Longrightarrow> a_mid (a_runs a ! i) = a_mid (a_runs a ! rid) \<Longrightarrow> i = rid"
    using jinv_mids [OF j _ l] by blast
  show ?thesis
    using j f l d unfolding journal_inv_unfold r n snoc_MS distinct_mid_upd_child
    by (auto simp: upd_child_same)
qed

lemma jinv_begin:
  assumes j: "journal_inv (a, ds)"
    and r: "a_runs a' = a_runs a @ [\<lparr>a_mid = a_nextId a, a_finished = False, a_child = Some False,
                                  a_turn = t, a_wpaths = True\<rparr>]"
    and n: "a_nextId a' = Suc (a_nextId a)"
  shows "journal_inv (a', ds @ [MessageStart (a_nextId a) ln rl sid])"
proof -
  let ?a = "a\<lparr>a_nextId := Suc (a_nextId a),
          a_runs := a_runs a @ [\<lparr>a_mid = a_nextId a, a_finished = False, a_child = None,
                                  a_turn = t, a_wpaths = True\<rparr>]\<rparr>"
  have "journal_inv (?a, ds)" by (rule jinv_start [OF j]) simp_all
  from jinv_spawn [OF this, of "length (a_runs a)" a' ln rl sid] show ?thesis
    by (simp add: r n)
qed

lemma jinv_block:
  assumes j: "journal_inv (a, ds)" and l: "rid < length (a_runs a)"
    and c: "a_child (a_runs a ! rid) \<noteq> None"
  shows "journal_inv (a, ds @ [ContentBlock (a_mid (a_runs a ! rid)) i b])"
proof -
  from j l c have f: "phase_of ds (a_mid (a_runs a ! rid)) \<noteq> None"
    unfolding journal_inv_unfold by (cases "a_finished (a_runs a ! rid)") simp_all
  show ?thesis
    using j f unfolding journal_inv_unfold snoc_CB by simp
qed

lemma jinv_end:
  assumes j: "journal_inv (a, ds)" and l: "rid < length (a_runs a)"
    and c: "a_child (a_runs a ! rid) \<noteq> None" and u: "\<not> a_finished (a_runs a ! rid)"
    and r: "a_runs a' = (a_runs a)[rid := (a_runs a ! rid)\<lparr>a_finished := True\<rparr>]"
    and n: "a_nextId a' = a_nextId a"
  shows "journal_inv (a', ds @ [MessageEnd (a_mid (a_runs a ! rid)) stopReason])"
proof -
  let ?mid = "a_mid (a_runs a ! rid)"
  from j l c u have f: "phase_of ds ?mid = Some Started"
    unfolding journal_inv_unfold by simp
  have d: "\<And>i. i < length (a_runs a) \<Longrightarrow> a_mid (a_runs a ! i) = ?mid \<Longrightarrow> i = rid"
    using jinv_mids [OF j _ l] by blast
  have c5: "\<exists>i < length (a_runs a'). a_mid (a_runs a' ! i) = m \<and> \<not> a_finished (a_runs a' ! i)"
    if m: "((phase_of ds)(?mid \<mapsto> Ended)) m = Some Started" for m
  proof -
    from m have ne: "m \<noteq> ?mid" and st: "phase_of ds m = Some Started"
      by (auto split: if_splits)
    from j st obtain i where i: "i < length (a_runs a)" "a_mid (a_runs a ! i) = m"
      "\<not> a_finished (a_runs a ! i)"
      unfolding journal_inv_unfold by blast
    from i ne have "i \<noteq> rid" by auto
    with i l show ?thesis
      unfolding r by (intro exI [of _ i]) (simp add: upd_finished_same)
  qed
  have rest: "messages_wf False (ds @ [MessageEnd ?mid stopReason]) \<and>
        (\<forall>m. phase_of (ds @ [MessageEnd ?mid stopReason]) m \<noteq> None \<longrightarrow> m < a_nextId a') \<and>
        distinct (map a_mid (a_runs a')) \<and>
        (\<forall>i < length (a_runs a').
           a_mid (a_runs a' ! i) < a_nextId a' \<and>
           phase_of (ds @ [MessageEnd ?mid stopReason]) (a_mid (a_runs a' ! i)) =
             (if a_finished (a_runs a' ! i) then Some Ended
              else if a_child (a_runs a' ! i) = None then None else Some Started))"
    using j f l d unfolding journal_inv_unfold r n snoc_ME distinct_mid_upd_finished
    by (auto simp: upd_finished_same)
  show ?thesis
    unfolding journal_inv_unfold using rest c5 unfolding snoc_ME by blast
qed

lemma jinv_kill:
  assumes j: "journal_inv (a, ds)" and l: "rid < length (a_runs a)"
    and c: "a_child (a_runs a ! rid) = Some False"
    and r: "a_runs a' = (a_runs a)[rid := (a_runs a ! rid)\<lparr>a_child := Some True\<rparr>]"
    and n: "a_nextId a' = a_nextId a"
  shows "journal_inv (a', ds)"
  using j l c unfolding journal_inv_unfold r n distinct_mid_upd_child
  by (auto simp: upd_child_same)

lemma journal_inv_step:
  "astep allow x y \<Longrightarrow> \<not> allow \<Longrightarrow> journal_inv x \<Longrightarrow> journal_inv y"
proof (induction rule: astep.induct)
  case (A_meta d allow a ds)
  then show ?case by (simp add: jinv_meta)
next
  case (A_qnorm allow a ds)
  then have j: "journal_inv (a, ds)" by simp
  show ?case by (rule jinv_cong [OF j]) (use A_qnorm in simp_all)
next
  case (A_qclear allow a ds)
  then have j: "journal_inv (a, ds)" by simp
  show ?case by (rule jinv_cong [OF j]) (use A_qclear in simp_all)
next
  case (A_message allow a ds ln rl sid i b)
  then have j: "journal_inv (a, ds)" by simp
  show ?case by (rule jinv_message [OF j]) (use A_message in simp_all)
next
  case (A_submit t a allow ds ln rl sid i b)
  then have j: "journal_inv (a, ds)" by simp
  show ?case by (rule jinv_message [OF j]) (use A_submit in simp_all)
next
  case (A_start allow a t rest ds)
  then show ?case by simp
next
  case (A_begin a t rest allow ds ln rl sid)
  then have j: "journal_inv (a, ds)" by simp
  show ?case by (rule jinv_begin [OF j]) simp_all
next
  case (A_drop a t rest allow ds)
  then have j: "journal_inv (a, ds)" by simp
  show ?case by (rule jinv_cong [OF j]) (use A_drop in simp_all)
next
  case (A_block rid a allow ds i b)
  then have j: "journal_inv (a, ds)" by simp
  show ?case by (rule jinv_block [OF j]) (use A_block in simp_all)
next
  case (A_finalize rid a allow blocks i b ds stopReason)
  then have c: "a_child (a_runs a ! rid) \<noteq> None" by simp
  from A_finalize have j: "journal_inv (a, ds)" by simp
  let ?a = "a\<lparr>a_active := False, a_proc := None, a_finalize := None,
          a_runs := (a_runs a)[rid := (a_runs a ! rid)\<lparr>a_finished := True\<rparr>]\<rparr>"
  from A_finalize.hyps(4) show ?case
  proof
    assume "blocks = []"
    then show ?thesis
      using jinv_end [OF j A_finalize.hyps(1) c A_finalize.hyps(2), of ?a stopReason]
      by simp
  next
    assume b: "blocks = [ContentBlock (a_mid (a_runs a ! rid)) i b]"
    have "journal_inv (a, ds @ blocks)"
      unfolding b by (rule jinv_block [OF j A_finalize.hyps(1) c])
    from jinv_end [OF this A_finalize.hyps(1) c A_finalize.hyps(2), of ?a stopReason]
    show ?thesis by simp
  qed
next
  case (A_kill rid a allow ds)
  then have j: "journal_inv (a, ds)" by simp
  show ?case by (rule jinv_kill [OF j]) (use A_kill in simp_all)
qed

subsection \<open>What the handlers do to the state and to the journal\<close>

lemma render_single: "render S [r] = S r @ [nl]"
  by (simp add: render_def)

lemma jstep_refl: "fsok p fs \<Longrightarrow> jstep S p fs fs []"
  by (simp add: jstep_def render_def)

lemma jstep_trans:
  "jstep S p a b ds1 \<Longrightarrow> jstep S p b c ds2 \<Longrightarrow> jstep S p a c (ds1 @ ds2)"
proof -
  assume 1: "jstep S p a b ds1" and 2: "jstep S p b c ds2"
  from 1 obtain rs1 where r1: "map r_data rs1 = ds1" "jtext p b = jtext p a @ render S rs1"
    by (auto simp: jstep_def)
  from 2 obtain rs2 where r2: "map r_data rs2 = ds2" "jtext p c = jtext p b @ render S rs2"
    and ok: "fsok p c"
    by (auto simp: jstep_def)
  have "map r_data (rs1 @ rs2) = ds1 @ ds2" using r1 r2 by simp
  moreover have "jtext p c = jtext p a @ render S (rs1 @ rs2)"
    using r1 r2 by (simp add: render_append)
  ultimately show ?thesis using ok unfolding jstep_def by blast
qed

lemma jstep_fsok: "jstep S p a b ds \<Longrightarrow> fsok p b"
  by (simp add: jstep_def)

lemma read_ok:
  "getSessionPaths sid = Inr p \<Longrightarrow> fsok p fs \<Longrightarrow> \<exists>m. readSessionMeta fs sid = Inr m"
  by (auto simp: readSessionMeta_def fsok_def)

lemma open_ok:
  "getSessionPaths sid = Inr p \<Longrightarrow> fsok p fs \<Longrightarrow>
   \<exists>w. createEventWriter P fs sid = Inr (fs, w) \<and> wpaths p w"
  by (auto simp: createEventWriter_def fsok_def wpaths_def Let_def)

lemma append_jstep:
  "fsok p fs \<Longrightarrow> wpaths p w \<Longrightarrow> append S fs w ev d = (fs', w', c) \<Longrightarrow>
   jstep S p fs fs' [d] \<and> wpaths p w' \<and> c = plus1 (w_cursor w) \<and> w_cursor w' = c"
proof -
  assume ok: "fsok p fs" and wp: "wpaths p w" and a: "append S fs w ev d = (fs', w', c)"
  let ?r = "\<lparr>r_cursor = String (plus1 (w_cursor w)), r_event = ev, r_data = d\<rparr>"
  from ok obtain tx where t: "journals fs (jsonlPath p) = Some tx"
    by (auto simp: fsok_def)
  from a wp t have f: "fs' = fs\<lparr>journals := (journals fs)(jsonlPath p \<mapsto> tx @ S ?r @ [nl])\<rparr>"
    and w: "w' = w\<lparr>w_cursor := plus1 (w_cursor w)\<rparr>" and c: "c = plus1 (w_cursor w)"
    by (auto simp: append_def appendFileSync_def Let_def wpaths_def)
  have j: "jtext p fs' = jtext p fs @ render S [?r]"
    by (simp add: f jtext_def t render_single)
  have k: "fsok p fs'" using ok by (simp add: f fsok_def)
  have "jstep S p fs fs' [d]" unfolding jstep_def
    using j k by (intro conjI exI [of _ "[?r]"]) simp_all
  then show ?thesis using w c wp by (simp add: wpaths_def)
qed

lemma commit_jstep:
  "fsok p fs \<Longrightarrow> wpaths p w \<Longrightarrow> commit fs w u = (fs', w') \<Longrightarrow>
   jstep S p fs fs' [] \<and> wpaths p w'"
  by (auto simp: commit_def Let_def jstep_def fsok_def wpaths_def jtext_def render_def)

lemma emit_effect:
  assumes "getSessionPaths sid = Inr p" and "fsok p (e_fs st)"
  shows "\<exists>fs' d. emitCodexSessionMetaUpdate env sid st = st\<lparr>e_fs := fs'\<rparr> \<and>
           jstep (JSON_stringify env) p (e_fs st) fs' [d] \<and> is_meta d"
proof -
  from read_ok [OF assms] obtain m where m: "readSessionMeta (e_fs st) sid = Inr m" by blast
  from open_ok [OF assms] obtain w where w: "createEventWriter (JSON_parse env) (e_fs st) sid = Inr (e_fs st, w)"
    "wpaths p w" by blast
  let ?d = "SessionMeta sid (cwd m) (or_else (model m) (or_else (CODEX_MODEL env) []))
                          (or_else (latestThreadId m) []) (active st) (length (the_queue st))"
  obtain fs2 w2 c where a: "append (JSON_stringify env) (e_fs st) w ''session_meta'' ?d = (fs2, w2, c)"
    by (cases "append (JSON_stringify env) (e_fs st) w ''session_meta'' ?d") auto
  obtain fs3 w3 where c: "commit fs2 w2 id = (fs3, w3)"
    by (cases "commit fs2 w2 id") auto
  from append_jstep [OF assms(2) w(2) a] have j1: "jstep (JSON_stringify env) p (e_fs st) fs2 [?d]" "wpaths p w2"
    by simp_all
  from commit_jstep [OF jstep_fsok [OF j1(1)] j1(2) c] have j2: "jstep (JSON_stringify env) p fs2 fs3 []"
    by simp
  from jstep_trans [OF j1(1) j2] have j: "jstep (JSON_stringify env) p (e_fs st) fs3 [?d]" by simp
  have "emitCodexSessionMetaUpdate env sid st = st\<lparr>e_fs := fs3\<rparr>"
    by (simp add: emitCodexSessionMetaUpdate_def m w a c Let_def)
  with j show ?thesis by (intro exI [of _ fs3] exI [of _ ?d]) simp
qed

lemma emit_form: "\<exists>fs'. emitCodexSessionMetaUpdate env sid st = st\<lparr>e_fs := fs'\<rparr>"
proof -
  have "\<exists>fs'. st = st\<lparr>e_fs := fs'\<rparr>"
    by (rule exI [of _ "e_fs st"]) simp
  then show ?thesis
    unfolding emitCodexSessionMetaUpdate_def Let_def
    by (auto split: sum.splits prod.splits)
qed

lemma abs_e_fs [simp]: "abs_state p (st\<lparr>e_fs := fs\<rparr>) = abs_state p st"
  by (simp add: abs_state_def)

lemma abs_emit [simp]: "abs_state p (emitCodexSessionMetaUpdate env sid st) = abs_state p st"
  using emit_form [of env sid st] by auto

lemma abs_length [simp]: "length (a_runs (abs_state p st)) = length (runs st)"
  by (simp add: abs_state_def)

lemma abs_nth: "k < length (runs st) \<Longrightarrow> a_runs (abs_state p st) ! k = core p (runs st ! k)"
  by (simp add: abs_state_def)

lemma map_core_update:
  "core p y = core p (xs ! k) \<Longrightarrow> map (core p) (xs[k := y]) = map (core p) xs"
  by (cases "k < length xs") (auto simp: nth_list_update intro!: nth_equalityI)

lemma abs_runs_update:
  "core p y = core p (runs st ! k) \<Longrightarrow>
   abs_state p (st\<lparr>runs := (runs st)[k := y]\<rparr>) = abs_state p st"
  by (simp add: abs_state_def map_core_update)

lemma append_writer:
  "append S fs w ev d = (fs', w', c) \<Longrightarrow> w' = w\<lparr>w_cursor := plus1 (w_cursor w)\<rparr> \<and> c = plus1 (w_cursor w)"
  by (auto simp: append_def Let_def)

lemma abs_run_append [simp]: "abs_state p (run_append env st rid ev d) = abs_state p st"
proof -
  obtain fs1 w1 c where a: "append (JSON_stringify env) (e_fs st) (r_writer (runs st ! rid)) ev d = (fs1, w1, c)"
    by (cases "append (JSON_stringify env) (e_fs st) (r_writer (runs st ! rid)) ev d") auto
  from append_writer [OF a] have w: "w1 = (r_writer (runs st ! rid))\<lparr>w_cursor := c\<rparr>" by simp
  show ?thesis
    by (simp add: run_append_def Let_def a abs_state_def map_core_update core_def w wpaths_def)
qed

lemma run_append_jstep:
  assumes l: "rid < length (runs st)" and ok: "fsok p (e_fs st)"
    and wp: "wpaths p (r_writer (runs st ! rid))"
  shows "jstep (JSON_stringify env) p (e_fs st) (e_fs (run_append env st rid ev d)) [d]"
proof -
  obtain fs1 w1 c where a: "append (JSON_stringify env) (e_fs st) (r_writer (runs st ! rid)) ev d = (fs1, w1, c)"
    by (cases "append (JSON_stringify env) (e_fs st) (r_writer (runs st ! rid)) ev d") auto
  from append_jstep [OF ok wp a] show ?thesis
    by (simp add: run_append_def Let_def a)
qed

lemma abs_run_content_block [simp]:
  "abs_state p (run_content_block env st rid b) = abs_state p st"
  by (simp add: run_content_block_def Let_def abs_runs_update core_def)

lemma abs_wpaths:
  "k < length (runs st) \<Longrightarrow> wpaths p (r_writer (runs st ! k)) = a_wpaths (a_runs (abs_state p st) ! k)"
  by (simp add: abs_nth core_def)

lemma abs_mid:
  "k < length (runs st) \<Longrightarrow> r_assistantMessageId (runs st ! k) = a_mid (a_runs (abs_state p st) ! k)"
  by (simp add: abs_nth core_def)

lemma abs_finished:
  "k < length (runs st) \<Longrightarrow> r_finished (runs st ! k) = a_finished (a_runs (abs_state p st) ! k)"
  by (simp add: abs_nth core_def)

lemma abs_child:
  "k < length (runs st) \<Longrightarrow> r_proc (runs st ! k) = a_child (a_runs (abs_state p st) ! k)"
  by (simp add: abs_nth core_def)

lemma run_content_block_jstep:
  assumes l: "rid < length (runs st)" and ok: "fsok p (e_fs st)"
    and wp: "wpaths p (r_writer (runs st ! rid))"
  shows "\<exists>i. jstep (JSON_stringify env) p (e_fs st) (e_fs (run_content_block env st rid b))
           [ContentBlock (r_assistantMessageId (runs st ! rid)) i b]"
proof -
  let ?st = "st\<lparr>runs := (runs st)[rid := (runs st ! rid)\<lparr>r_blockIndex := r_blockIndex (runs st ! rid) + 1\<rparr>]\<rparr>"
  have "jstep (JSON_stringify env) p (e_fs ?st)
      (e_fs (run_append env ?st rid ''content_block''
         (ContentBlock (r_assistantMessageId (runs st ! rid)) (r_blockIndex (runs st ! rid)) b)))
      [ContentBlock (r_assistantMessageId (runs st ! rid)) (r_blockIndex (runs st ! rid)) b]"
    by (rule run_append_jstep) (use l ok wp in simp_all)
  then show ?thesis
    by (auto simp: run_content_block_def Let_def)
qed

lemma finalizeRun_finished:
  "r_finished (runs st ! rid) \<Longrightarrow> finalizeRun env sid st rid reason code = st"
  by (simp add: finalizeRun_def)

lemma abs_appendAssistantText [simp]:
  "abs_state p (appendAssistantText env st rid tx) = abs_state p st"
  by (simp add: appendAssistantText_def)

lemma fsok_run_update [simp]: "e_fs (st\<lparr>runs := rs\<rparr>) = e_fs st"
  by simp

lemma finalizeRun_split:
  "finalizeRun env sid st rid reason code =
     (if r_finished (runs st ! rid) then st
      else finalize_end env sid (finalize_texts env st rid reason code) rid reason)"
  by (simp add: finalizeRun_def finalize_end_def finalize_texts_def Let_def)

lemma finalize_end_effect:
  assumes v: "getSessionPaths sid = Inr p" and l: "rid < length (runs s)"
    and ok: "fsok p (e_fs s)" and wp: "wpaths p (r_writer (runs s ! rid))"
  shows "\<exists>d. abs_state p (finalize_end env sid s rid reason) =
           (abs_state p s)\<lparr>a_active := False, a_proc := None, a_finalize := None\<rparr> \<and>
         jstep (JSON_stringify env) p (e_fs s) (e_fs (finalize_end env sid s rid reason))
           [MessageEnd (r_assistantMessageId (runs s ! rid)) reason, d] \<and> is_meta d"
proof -
  let ?S = "JSON_stringify env"
  let ?me = "MessageEnd (r_assistantMessageId (runs s ! rid)) reason"
  define s4 where "s4 = run_append env s rid ''message_end'' ?me"
  have a4: "abs_state p s4 = abs_state p s" by (simp add: s4_def)
  have l4: "rid < length (runs s4)" using a4 l by (metis abs_length)
  have j4: "jstep ?S p (e_fs s) (e_fs s4) [?me]"
    unfolding s4_def by (rule run_append_jstep [OF l ok wp])
  have wp4: "wpaths p (r_writer (runs s4 ! rid))"
    using wp abs_wpaths [OF l, of p] abs_wpaths [OF l4, of p] a4 by simp
  define U :: "meta \<Rightarrow> meta" where "U = (\<lambda>m. m\<lparr>lastMessagePreview :=
                        slice_to 120 (or_else (r_assistantPreview (runs s4 ! rid)) (t_content (r_turn (runs s4 ! rid)))),
                      messageCount := r_lastCursor (runs s4 ! rid),
                      latestThreadId :=
                        or_else (r_latestThreadId (runs s4 ! rid)) (or_else (latestThreadId (w_meta (r_writer (runs s4 ! rid)))) []),
                      model := or_else (model (r_sessionMeta (runs s4 ! rid))) (or_else (CODEX_MODEL env) [])\<rparr>)"
  obtain fs1 w1 where c: "commit (e_fs s4) (r_writer (runs s4 ! rid)) U = (fs1, w1)"
    by (cases "commit (e_fs s4) (r_writer (runs s4 ! rid)) U") auto
  define s5 where "s5 = s4\<lparr>e_fs := fs1, runs := (runs s4)[rid := (runs s4 ! rid)\<lparr>r_writer := w1\<rparr>],
                   proc := None, finalize := None, active := False\<rparr>"
  have fe: "finalize_end env sid s rid reason = emitCodexSessionMetaUpdate env sid s5"
    using c by (simp add: finalize_end_def Let_def s4_def [symmetric] U_def [symmetric] s5_def)
  from commit_jstep [OF jstep_fsok [OF j4] wp4 c]
  have j5: "jstep ?S p (e_fs s4) fs1 []" and wp5: "wpaths p w1" by simp_all
  have e5: "e_fs s5 = fs1" by (simp add: s5_def)
  have core5: "core p ((runs s4 ! rid)\<lparr>r_writer := w1\<rparr>) = core p (runs s4 ! rid)"
    using wp4 wp5 by (simp add: core_def)
  have a5: "abs_state p s5 = (abs_state p s)\<lparr>a_active := False, a_proc := None, a_finalize := None\<rparr>"
    unfolding a4 [symmetric]
    by (simp add: s5_def abs_state_def map_core_update [OF core5])
  from emit_effect [OF v, of s5 env] jstep_fsok [OF j5] e5
  obtain fs' d where em: "emitCodexSessionMetaUpdate env sid s5 = s5\<lparr>e_fs := fs'\<rparr>"
    and j6: "jstep ?S p fs1 fs' [d]" and md: "is_meta d"
    by auto
  from jstep_trans [OF jstep_trans [OF j4 j5] j6]
  have "jstep ?S p (e_fs s) fs' [?me, d]" by simp
  then show ?thesis
    using a5 md by (intro exI [of _ d]) (simp add: fe em)
qed

lemma finalize_texts_cases:
  "finalize_texts env st rid reason code =
     st\<lparr>runs := (runs st)[rid := (runs st ! rid)\<lparr>r_finished := True\<rparr>]\<rparr> \<or>
   (\<exists>tx. finalize_texts env st rid reason code =
      appendAssistantText env (st\<lparr>runs := (runs st)[rid := (runs st ! rid)\<lparr>r_finished := True\<rparr>]\<rparr>) rid tx)"
  by (cases reason) (auto simp: finalize_texts_def Let_def)

lemma abs_mark_finished:
  "rid < length (runs st) \<Longrightarrow>
   abs_state p (st\<lparr>runs := (runs st)[rid := (runs st ! rid)\<lparr>r_finished := True\<rparr>]\<rparr>) =
     (abs_state p st)\<lparr>a_runs := (a_runs (abs_state p st))
        [rid := (a_runs (abs_state p st) ! rid)\<lparr>a_finished := True\<rparr>]\<rparr>"
  by (simp add: abs_state_def map_update core_def)

lemma appendAssistantText_jstep:
  assumes l: "rid < length (runs st)" and ok: "fsok p (e_fs st)"
    and wp: "wpaths p (r_writer (runs st ! rid))"
  shows "\<exists>i b. jstep (JSON_stringify env) p (e_fs st) (e_fs (appendAssistantText env st rid tx))
           [ContentBlock (r_assistantMessageId (runs st ! rid)) i b]"
  using run_content_block_jstep [OF l ok wp, of env "TextBlock tx"]
  unfolding appendAssistantText_def by blast

lemma finalize_texts_effect:
  assumes l: "rid < length (runs st)" and ok: "fsok p (e_fs st)"
    and wp: "wpaths p (r_writer (runs st ! rid))"
  shows "\<exists>blocks.
     abs_state p (finalize_texts env st rid reason code) =
       (abs_state p st)\<lparr>a_runs := (a_runs (abs_state p st))
          [rid := (a_runs (abs_state p st) ! rid)\<lparr>a_finished := True\<rparr>]\<rparr> \<and>
     jstep (JSON_stringify env) p (e_fs st) (e_fs (finalize_texts env st rid reason code)) blocks \<and>
     (blocks = [] \<or> (\<exists>i b. blocks = [ContentBlock (r_assistantMessageId (runs st ! rid)) i b]))"
proof -
  let ?st1 = "st\<lparr>runs := (runs st)[rid := (runs st ! rid)\<lparr>r_finished := True\<rparr>]\<rparr>"
  have l1: "rid < length (runs ?st1)" using l by simp
  have ok1: "fsok p (e_fs ?st1)" using ok by simp
  have wp1: "wpaths p (r_writer (runs ?st1 ! rid))" using wp l by simp
  have m1: "r_assistantMessageId (runs ?st1 ! rid) = r_assistantMessageId (runs st ! rid)"
    using l by simp
  from finalize_texts_cases [of env st rid reason code] show ?thesis
  proof
    assume e: "finalize_texts env st rid reason code = ?st1"
    show ?thesis
      unfolding e using abs_mark_finished [OF l, of p] jstep_refl [OF ok]
      by (intro exI [of _ "[]"]) simp
  next
    assume "\<exists>tx. finalize_texts env st rid reason code = appendAssistantText env ?st1 rid tx"
    then obtain tx where e: "finalize_texts env st rid reason code = appendAssistantText env ?st1 rid tx"
      by blast
    from appendAssistantText_jstep [OF l1 ok1 wp1, of env tx] obtain i b
      where j: "jstep (JSON_stringify env) p (e_fs st) (e_fs (appendAssistantText env ?st1 rid tx))
           [ContentBlock (r_assistantMessageId (runs st ! rid)) i b]"
      unfolding m1 by auto
    show ?thesis
      unfolding e using abs_mark_finished [OF l, of p] j
      by (intro exI [of _ "[ContentBlock (r_assistantMessageId (runs st ! rid)) i b]"]) simp
  qed
qed

lemma finalizeRun_effect:
  assumes v: "getSessionPaths sid = Inr p" and l: "rid < length (runs st)"
    and ok: "fsok p (e_fs st)" and wp: "wpaths p (r_writer (runs st ! rid))"
    and u: "\<not> r_finished (runs st ! rid)"
  shows "\<exists>blocks d.
     abs_state p (finalizeRun env sid st rid reason code) =
       (abs_state p st)\<lparr>a_active := False, a_proc := None, a_finalize := None,
          a_runs := (a_runs (abs_state p st))
          [rid := (a_runs (abs_state p st) ! rid)\<lparr>a_finished := True\<rparr>]\<rparr> \<and>
     jstep (JSON_stringify env) p (e_fs st) (e_fs (finalizeRun env sid st rid reason code))
       (blocks @ [MessageEnd (r_assistantMessageId (runs st ! rid)) reason, d]) \<and>
     is_meta d \<and>
     (blocks = [] \<or> (\<exists>i b. blocks = [ContentBlock (r_assistantMessageId (runs st ! rid)) i b]))"
proof -
  let ?s = "finalize_texts env st rid reason code"
  let ?mid = "r_assistantMessageId (runs st ! rid)"
  from finalize_texts_effect [OF l ok wp, of env reason code] obtain blocks where
    a: "abs_state p ?s = (abs_state p st)\<lparr>a_runs := (a_runs (abs_state p st))
          [rid := (a_runs (abs_state p st) ! rid)\<lparr>a_finished := True\<rparr>]\<rparr>"
    and j: "jstep (JSON_stringify env) p (e_fs st) (e_fs ?s) blocks"
    and b: "blocks = [] \<or> (\<exists>i b. blocks = [ContentBlock ?mid i b])"
    by blast
  have ls: "rid < length (runs ?s)"
    using l abs_length [of p ?s] unfolding a by simp
  have wps: "wpaths p (r_writer (runs ?s ! rid))"
    using wp l unfolding abs_wpaths [OF ls, of p] abs_wpaths [OF l, of p] a by simp
  have ms: "r_assistantMessageId (runs ?s ! rid) = ?mid"
    using l unfolding abs_mid [OF ls, of p] abs_mid [OF l, of p] a by simp
  from finalize_end_effect [OF v ls jstep_fsok [OF j] wps, of env reason] obtain d where
    a2: "abs_state p (finalize_end env sid ?s rid reason) =
           (abs_state p ?s)\<lparr>a_active := False, a_proc := None, a_finalize := None\<rparr>"
    and j2: "jstep (JSON_stringify env) p (e_fs ?s) (e_fs (finalize_end env sid ?s rid reason))
           [MessageEnd ?mid reason, d]"
    and md: "is_meta d"
    unfolding ms by blast
  have f: "finalizeRun env sid st rid reason code = finalize_end env sid ?s rid reason"
    using u by (simp add: finalizeRun_split)
  show ?thesis
    unfolding f using a2 jstep_trans [OF j j2] md b
    by (intro exI [of _ blocks] exI [of _ d]) (simp add: a)
qed

subsection \<open>The handlers as sequences of small steps\<close>

lemma cancelled_ends_append [simp]:
  "cancelled_ends (xs @ ys) = cancelled_ends xs + cancelled_ends ys"
  by (simp add: cancelled_ends_def)

lemma cancelled_ends_simps [simp]:
  "cancelled_ends [] = 0"
  "cancelled_ends (ContentBlock m i b # ds) = cancelled_ends ds"
  "cancelled_ends (MessageStart m ln rl sid # ds) = cancelled_ends ds"
  "cancelled_ends (MessageEnd m r # ds) = (if r = Cancelled then 1 else 0) + cancelled_ends ds"
  "is_meta d \<Longrightarrow> cancelled_ends (d # ds) = cancelled_ends ds"
  by (cases d; simp add: cancelled_ends_def)+

lemma aq_abs [simp]: "aq (abs_state p st) = the_queue st"
  by (simp add: aq_def the_queue_def abs_state_def)

lemma sim_refl: "fsok p (e_fs st) \<Longrightarrow> sim al k env p st st"
  unfolding sim_def by (intro exI [of _ "[]"]) (simp add: jstep_refl)

lemma sim_abs_eq:
  "fsok p (e_fs st) \<Longrightarrow> e_fs st' = e_fs st \<Longrightarrow> abs_state p st' = abs_state p st \<Longrightarrow>
   sim al k env p st st'"
  unfolding sim_def by (intro exI [of _ "[]"]) (simp add: jstep_refl)

lemma sim_trans:
  assumes "sim al k1 env p a b" and "sim al k2 env p b c"
  shows "sim al (k1 + k2) env p a c"
proof -
  from assms(1) obtain ds1 where 1: "jstep (JSON_stringify env) p (e_fs a) (e_fs b) ds1"
    "cancelled_ends ds1 \<le> k1" "\<forall>D. (astep al)\<^sup>*\<^sup>* (abs_state p a, D) (abs_state p b, D @ ds1)"
    unfolding sim_def by blast
  from assms(2) obtain ds2 where 2: "jstep (JSON_stringify env) p (e_fs b) (e_fs c) ds2"
    "cancelled_ends ds2 \<le> k2" "\<forall>D. (astep al)\<^sup>*\<^sup>* (abs_state p b, D) (abs_state p c, D @ ds2)"
    unfolding sim_def by blast
  have "(astep al)\<^sup>*\<^sup>* (abs_state p a, D) (abs_state p c, D @ ds1 @ ds2)" for D
    using 1(3) [rule_format, of D] 2(3) [rule_format, of "D @ ds1"] by simp
  then show ?thesis
    unfolding sim_def using jstep_trans [OF 1(1) 2(1)] 1(2) 2(2)
    by (intro exI [of _ "ds1 @ ds2"]) simp
qed

lemma sim_mono: "sim al k env p a b \<Longrightarrow> k \<le> k' \<Longrightarrow> sim al k' env p a b"
  unfolding sim_def by (meson le_trans)

lemma sim_one:
  assumes "jstep (JSON_stringify env) p (e_fs st) (e_fs st') ds" and "cancelled_ends ds \<le> k"
    and "\<And>D. astep al (abs_state p st, D) (abs_state p st', D @ ds)"
  shows "sim al k env p st st'"
  unfolding sim_def using assms by (intro exI [of _ ds]) blast

lemma sim_silent:
  assumes "fsok p (e_fs st)" and "e_fs st' = e_fs st"
    and "\<And>D. astep al (abs_state p st, D) (abs_state p st', D)"
  shows "sim al k env p st st'"
  by (rule sim_one [of _ _ _ _ "[]"]) (use assms in \<open>simp_all add: jstep_refl\<close>)

lemma sim_fsok: "sim al k env p a b \<Longrightarrow> fsok p (e_fs b)"
  unfolding sim_def jstep_def by blast

lemma sim_emit:
  assumes v: "getSessionPaths sid = Inr p" and ok: "fsok p (e_fs st)"
  shows "sim al 0 env p st (emitCodexSessionMetaUpdate env sid st)"
proof -
  from emit_effect [OF v ok, of env] obtain fs' d where
    e: "emitCodexSessionMetaUpdate env sid st = st\<lparr>e_fs := fs'\<rparr>"
    and j: "jstep (JSON_stringify env) p (e_fs st) fs' [d]" and m: "is_meta d"
    by blast
  show ?thesis
    unfolding e
    by (rule sim_one [of _ _ _ _ "[d]"]) (use j m in \<open>simp_all add: A_meta\<close>)
qed

lemma sim_block:
  assumes l: "rid < length (runs st)" and ok: "fsok p (e_fs st)"
    and wp: "wpaths p (r_writer (runs st ! rid))" and c: "r_proc (runs st ! rid) \<noteq> None"
  shows "sim al 0 env p st (run_content_block env st rid b)"
proof -
  from run_content_block_jstep [OF l ok wp, of env b] obtain i where
    j: "jstep (JSON_stringify env) p (e_fs st) (e_fs (run_content_block env st rid b))
           [ContentBlock (r_assistantMessageId (runs st ! rid)) i b]"
    by blast
  have "astep al (abs_state p st, D)
      (abs_state p st, D @ [ContentBlock (a_mid (a_runs (abs_state p st) ! rid)) i b])" for D
    by (rule A_block) (use l c in \<open>simp_all add: abs_child [symmetric]\<close>)
  then show ?thesis
    using j by (intro sim_one [of _ _ _ _ "[ContentBlock (r_assistantMessageId (runs st ! rid)) i b]"])
      (simp_all add: abs_mid [OF l, of p])
qed

lemma sim_finalize:
  assumes v: "getSessionPaths sid = Inr p" and l: "rid < length (runs st)"
    and ok: "fsok p (e_fs st)" and wp: "wpaths p (r_writer (runs st ! rid))"
    and u: "\<not> r_finished (runs st ! rid)" and c: "al \<or> r_proc (runs st ! rid) \<noteq> None"
  shows "sim al (if reason = Cancelled then 1 else 0) env p st (finalizeRun env sid st rid reason code)"
proof -
  let ?st' = "finalizeRun env sid st rid reason code"
  let ?a = "abs_state p st"
  let ?mid = "r_assistantMessageId (runs st ! rid)"
  from finalizeRun_effect [OF v l ok wp u, of env reason code] obtain blocks d where
    a: "abs_state p ?st' = ?a\<lparr>a_active := False, a_proc := None, a_finalize := None,
          a_runs := (a_runs ?a)[rid := (a_runs ?a ! rid)\<lparr>a_finished := True\<rparr>]\<rparr>"
    and j: "jstep (JSON_stringify env) p (e_fs st) (e_fs ?st') (blocks @ [MessageEnd ?mid reason, d])"
    and m: "is_meta d"
    and b: "blocks = [] \<or> (\<exists>i b. blocks = [ContentBlock ?mid i b])"
    by blast
  from b obtain i bl where b': "blocks = [] \<or> blocks = [ContentBlock (a_mid (a_runs ?a ! rid)) i bl]"
    unfolding abs_mid [OF l, of p] by blast
  have s1: "astep al (?a, D) (abs_state p ?st', D @ blocks @ [MessageEnd (a_mid (a_runs ?a ! rid)) reason])" for D
    unfolding a
    by (rule A_finalize [OF _ _ _ b']) (use l u c in \<open>simp_all add: abs_finished [symmetric] abs_child [symmetric]\<close>)
  have s2: "astep al (abs_state p ?st', D') (abs_state p ?st', D' @ [d])" for D'
    by (rule A_meta [OF m])
  have "(astep al)\<^sup>*\<^sup>* (?a, D) (abs_state p ?st', D @ blocks @ [MessageEnd ?mid reason, d])" for D
    using s1 [of D] s2 [of "D @ blocks @ [MessageEnd (a_mid (a_runs ?a ! rid)) reason]"]
    unfolding abs_mid [OF l, of p] by (simp add: rtranclp.intros)
  moreover have "cancelled_ends (blocks @ [MessageEnd ?mid reason, d]) \<le> (if reason = Cancelled then 1 else 0)"
    using b m by auto
  ultimately show ?thesis
    unfolding sim_def using j by blast
qed

lemma wp_of_ctrl:
  "ctrl_inv (abs_state p st) \<Longrightarrow> rid < length (runs st) \<Longrightarrow> wpaths p (r_writer (runs st ! rid))"
  using ctrl_wp [of "abs_state p st"] by (simp add: list_all_length abs_wpaths)

lemma sim_stderr:
  "fsok p (e_fs st) \<Longrightarrow> sim al 0 env p st (onStderrData st rid tx)"
  by (rule sim_abs_eq) (simp_all add: onStderrData_def Let_def abs_runs_update core_def)

lemma sim_stdout:
  assumes ok: "fsok p (e_fs st)" and c: "ctrl_inv (abs_state p st)" and h: "has_child st rid"
  shows "sim al 0 env p st (onStdoutLine env st rid e)"
proof -
  from h have l: "rid < length (runs st)" and ch: "r_proc (runs st ! rid) \<noteq> None"
    by (simp_all add: has_child_def)
  note wp = wp_of_ctrl [OF c l]
  show ?thesis
  proof (cases e)
    case (ThreadStarted x)
    then show ?thesis
      using ok by (intro sim_abs_eq) (simp_all add: abs_runs_update core_def)
  next
    case TurnCompleted
    then show ?thesis using ok by (simp add: sim_refl)
  next
    case (CommandStarted x y)
    then show ?thesis using sim_block [OF l ok wp ch] by simp
  next
    case (CommandCompleted x y z)
    then show ?thesis using sim_block [OF l ok wp ch] by simp
  next
    case (AgentMessage tx)
    let ?st = "st\<lparr>runs := (runs st)[rid := (runs st ! rid)\<lparr>r_assistantPreview := tx\<rparr>]\<rparr>"
    show ?thesis
    proof (cases "tx = []")
      case True
      have "onStdoutLine env st rid e = run_content_block env st rid (TextBlock tx)"
        using AgentMessage True by simp
      then show ?thesis using sim_block [OF l ok wp ch, of al env "TextBlock tx"] by simp
    next
      case False
      have e: "onStdoutLine env st rid e = run_content_block env ?st rid (TextBlock tx)"
        using AgentMessage False by (simp add: Let_def)
      have 2: "sim al 0 env p ?st (run_content_block env ?st rid (TextBlock tx))"
        by (rule sim_block) (use l ok wp ch in simp_all)
      have 1: "sim al 0 env p st ?st"
        using ok by (intro sim_abs_eq) (simp_all add: abs_runs_update core_def)
      from sim_trans [OF 1 2] show ?thesis unfolding e by simp
    qed
  next
    case (Reasoning x)
    then show ?thesis using sim_block [OF l ok wp ch] by simp
  next
    case Ignored
    then show ?thesis using ok by (simp add: sim_refl)
  qed
qed

lemma sim_finalize_any:
  assumes v: "getSessionPaths sid = Inr p" and ok: "fsok p (e_fs st)"
    and c: "ctrl_inv (abs_state p st)" and l: "rid < length (runs st)"
    and ch: "al \<or> r_proc (runs st ! rid) \<noteq> None"
  shows "sim al (if reason = Cancelled then 1 else 0) env p st (finalizeRun env sid st rid reason code)"
proof (cases "r_finished (runs st ! rid)")
  case True
  then show ?thesis using ok by (simp add: finalizeRun_finished sim_refl)
next
  case False
  show ?thesis by (rule sim_finalize [OF v l ok wp_of_ctrl [OF c l] False ch])
qed

lemma sim_close:
  assumes v: "getSessionPaths sid = Inr p" and ok: "fsok p (e_fs st)"
    and c: "ctrl_inv (abs_state p st)" and h: "has_child st rid"
  shows "sim al 0 env p st (onClose env sid st rid code)"
proof -
  from h have l: "rid < length (runs st)" and ch: "al \<or> r_proc (runs st ! rid) \<noteq> None"
    by (simp_all add: has_child_def)
  show ?thesis
  proof (cases "code = Some 0")
    case True
    have "sim al (if EndTurn = Cancelled then 1 else 0) env p st (finalizeRun env sid st rid EndTurn code)"
      by (rule sim_finalize_any [OF v ok c l ch])
    then show ?thesis using True by (simp add: onClose_def)
  next
    case False
    have "sim al (if Error = Cancelled then 1 else 0) env p st (finalizeRun env sid st rid Error code)"
      by (rule sim_finalize_any [OF v ok c l ch])
    then show ?thesis using False by (simp add: onClose_def)
  qed
qed

lemma sim_error:
  assumes v: "getSessionPaths sid = Inr p" and ok: "fsok p (e_fs st)"
    and c: "ctrl_inv (abs_state p st)" and h: "has_child st rid"
  shows "sim al 0 env p st (onError env sid st rid message)"
proof -
  from h have l: "rid < length (runs st)" and ch: "r_proc (runs st ! rid) \<noteq> None"
    by (simp_all add: has_child_def)
  let ?st = "st\<lparr>runs := (runs st)[rid := (runs st ! rid)
                   \<lparr>r_stderrBuf := or_else message (r_stderrBuf (runs st ! rid))\<rparr>]\<rparr>"
  have a: "abs_state p ?st = abs_state p st"
    by (simp add: abs_runs_update core_def)
  have 1: "sim al 0 env p st ?st"
    using ok a by (intro sim_abs_eq) simp_all
  have c': "ctrl_inv (abs_state p ?st)" using c a by simp
  have "sim al (if Error = Cancelled then 1 else 0) env p ?st (finalizeRun env sid ?st rid Error None)"
    by (rule sim_finalize_any [OF v _ c']) (use ok l ch in simp_all)
  then have 2: "sim al 0 env p ?st (finalizeRun env sid ?st rid Error None)" by simp
  from sim_trans [OF 1 2] show ?thesis
    by (simp add: onError_def Let_def)
qed

lemma ctrl_fin:
  "ctrl_inv a \<Longrightarrow> a_finalize a = Some rid \<Longrightarrow> rid < length (a_runs a) \<and> \<not> a_finished (a_runs a ! rid)"
  unfolding ctrl_inv_def by blast

lemma ctrl_proc: "ctrl_inv a \<Longrightarrow> a_proc a = Some rid \<Longrightarrow> a_finalize a = Some rid"
  unfolding ctrl_inv_def by blast


lemma ctrl_unfin:
  "ctrl_inv a \<Longrightarrow> rid < length (a_runs a) \<Longrightarrow> \<not> a_finished (a_runs a ! rid) \<Longrightarrow> a_finalize a = Some rid"
  unfolding ctrl_inv_def by blast

lemma abs_proj [simp]:
  "a_active (abs_state p st) = active st"
  "a_proc (abs_state p st) = proc st"
  "a_finalize (abs_state p st) = finalize st"
  "a_queue (abs_state p st) = queue st"
  "a_nextId (abs_state p st) = nextId st"
  by (simp_all add: abs_state_def)

lemma triple_jstep:
  assumes ok: "fsok p fs" and wp: "wpaths p w"
    and a1: "append S fs w e1 d1 = (fs1, w1, c1)"
    and a2: "append S fs1 w1 e2 d2 = (fs2, w2, c2)"
    and a3: "append S fs2 w2 e3 d3 = (fs3, w3, c3)"
    and cm: "commit fs3 w3 U = (fs4, w4)"
  shows "jstep S p fs fs4 [d1, d2, d3] \<and> wpaths p w4"
proof -
  from append_jstep [OF ok wp a1] have j1: "jstep S p fs fs1 [d1]" and p1: "wpaths p w1" by simp_all
  from append_jstep [OF jstep_fsok [OF j1] p1 a2] have j2: "jstep S p fs1 fs2 [d2]" and p2: "wpaths p w2" by simp_all
  from append_jstep [OF jstep_fsok [OF j2] p2 a3] have j3: "jstep S p fs2 fs3 [d3]" and p3: "wpaths p w3" by simp_all
  from commit_jstep [OF jstep_fsok [OF j3] p3 cm] have j4: "jstep S p fs3 fs4 []" and p4: "wpaths p w4" by simp_all
  from jstep_trans [OF jstep_trans [OF jstep_trans [OF j1 j2] j3] j4] p4 show ?thesis by simp
qed

lemma commandReply_jstep:
  assumes v: "getSessionPaths sid = Inr p" and ok: "fsok p fs"
  shows "jstep S p fs (fst (commandReply env sid fs m tr)) []"
proof -
  have "fsok p (fst (commandReply env sid fs m tr)) \<and>
        jtext p (fst (commandReply env sid fs m tr)) = jtext p fs"
    using v ok
    by (simp add: commandReply_def Let_def writeSessionMeta_def fsok_def jtext_def)
  then show ?thesis by (simp add: jstep_def render_def)
qed

lemma submit_effect:
  assumes v: "getSessionPaths sid = Inr p" and ok: "fsok p (e_fs st)"
  shows "sim al 0 env p st (fst (submit env sid st content imagePath)) \<and>
     abs_state p (fst (submit env sid st content imagePath)) =
       (if content = [] then abs_state p st
        else if isGatewayCommand (trim content)
        then (abs_state p st)\<lparr>a_queue := Some (the_queue st), a_nextId := nextId st + 2\<rparr>
        else (abs_state p st)\<lparr>a_queue := Some (the_queue st @
               [\<lparr>t_prompt = content @
                   (if imagePath \<noteq> [] then [nl, nl] @ ''[Attached image: '' @ imagePath @ '']''
                    else []),
                 t_content = content, t_imagePath = imagePath, t_userMessageId = nextId st\<rparr>]),
               a_nextId := nextId st + 1\<rparr>)"
proof (cases "content = []")
  case True
  then show ?thesis using ok by (simp add: submit_def sim_refl)
next
  case ne: False
  let ?S = "JSON_stringify env"
  from read_ok [OF v ok] obtain m where m: "readSessionMeta (e_fs st) sid = Inr m" by blast
  from open_ok [OF v ok] obtain w0 where w0: "createEventWriter (JSON_parse env) (e_fs st) sid = Inr (e_fs st, w0)"
    and wp0: "wpaths p w0" by blast
  define prompt where "prompt = content @
      (if imagePath \<noteq> [] then [nl, nl] @ ''[Attached image: '' @ imagePath @ '']'' else [])"
  define uid where "uid = nextId st"
  define d1 where "d1 = MessageStart uid (plus1 (cursor_or_0 (w_meta w0))) User sid"
  define d2 where "d2 = ContentBlock uid 0 (TextBlock prompt)"
  define d3 where "d3 = MessageEnd uid EndTurn"
  obtain fs1 w1 c1 where a1: "append ?S (e_fs st) w0 ''message_start'' d1 = (fs1, w1, c1)"
    by (cases "append ?S (e_fs st) w0 ''message_start'' d1") auto
  obtain fs2 w2 c2 where a2: "append ?S fs1 w1 ''content_block'' d2 = (fs2, w2, c2)"
    by (cases "append ?S fs1 w1 ''content_block'' d2") auto
  obtain fs3 w3 c3 where a3: "append ?S fs2 w2 ''message_end'' d3 = (fs3, w3, c3)"
    by (cases "append ?S fs2 w2 ''message_end'' d3") auto
  define U :: "meta \<Rightarrow> meta" where
    "U = (\<lambda>m. m\<lparr>lastMessagePreview := slice_to 120 content, messageCount := c3\<rparr>)"
  obtain fs4 w4 where cm: "commit fs3 w3 U = (fs4, w4)"
    by (cases "commit fs3 w3 U") auto
  from triple_jstep [OF ok wp0 a1 a2 a3 cm]
  have j4: "jstep ?S p (e_fs st) fs4 [d1, d2, d3]" and wp4: "wpaths p w4" by simp_all
  let ?a = "abs_state p st"
  define sq where "sq = st\<lparr>queue := Some (the_queue st)\<rparr>"
  have 0: "sim al 0 env p st sq"
  proof (rule sim_silent [OF ok])
    show "e_fs sq = e_fs st" by (simp add: sq_def)
    have "abs_state p sq = ?a\<lparr>a_queue := Some (aq ?a)\<rparr>"
      by (simp add: sq_def abs_state_def aq_def the_queue_def)
    then show "astep al (?a, D) (abs_state p sq, D)" for D
      using A_qnorm [of al ?a D] by simp
  qed
  have aqq: "aq (abs_state p sq) = the_queue st"
    by (simp add: sq_def the_queue_def)
  show ?thesis
  proof (cases "isGatewayCommand (trim content)")
    case False
    define t where "t = \<lparr>t_prompt = prompt, t_content = content,
        t_imagePath = imagePath, t_userMessageId = uid\<rparr>"
    define s5 where "s5 = st\<lparr>queue := Some (the_queue st @ [t]), nextId := nextId st + 1, e_fs := fs4\<rparr>"
    have res: "fst (submit env sid st content imagePath) = emitCodexSessionMetaUpdate env sid s5"
      using ne m w0 a1 a2 a3 cm False
      apply (simp add: submit_def Let_def prompt_def [symmetric] uid_def [symmetric] d1_def [symmetric]
          d2_def [symmetric] d3_def [symmetric] U_def [symmetric] t_def [symmetric] s5_def the_queue_def)
      apply (cases st)
      apply simp
      done
    have 1: "sim al 0 env p sq s5"
    proof (rule sim_one [of _ _ _ _ "[d1, d2, d3]"])
      show "jstep ?S p (e_fs sq) (e_fs s5) [d1, d2, d3]"
        using j4 by (simp add: sq_def s5_def)
      show "cancelled_ends [d1, d2, d3] \<le> 0"
        by (simp add: d1_def d2_def d3_def)
      have e: "abs_state p s5 = (abs_state p sq)\<lparr>a_nextId := Suc (a_nextId (abs_state p sq)),
          a_queue := Some (aq (abs_state p sq) @ [t])\<rparr>"
        unfolding aqq by (simp add: s5_def sq_def abs_state_def)
      have u: "uid = a_nextId (abs_state p sq)" by (simp add: uid_def sq_def)
      show "astep al (abs_state p sq, D) (abs_state p s5, D @ [d1, d2, d3])" for D
        unfolding e d1_def d2_def d3_def u
        by (rule A_submit) (simp add: t_def uid_def sq_def)
    qed
    have 2: "sim al 0 env p s5 (emitCodexSessionMetaUpdate env sid s5)"
      by (rule sim_emit [OF v sim_fsok [OF 1]])
    have ab: "abs_state p s5 = (abs_state p st)\<lparr>a_queue := Some (the_queue st @ [t]),
        a_nextId := nextId st + 1\<rparr>"
      by (simp add: s5_def abs_state_def)
    from sim_trans [OF sim_trans [OF 0 1] 2] have "sim al 0 env p st (fst (submit env sid st content imagePath))"
      by (simp add: res)
    then show ?thesis
      using ne False by (simp add: res ab t_def prompt_def uid_def)
  next
    case True
    define aid where "aid = Suc (nextId st)"
    define d5 where "d5 = MessageStart aid (plus1 c3) Assistant sid"
    obtain fs5 w5 c5 where a5: "append ?S fs4 w4 ''message_start'' d5 = (fs5, w5, c5)"
      by (cases "append ?S fs4 w4 ''message_start'' d5") auto
    obtain fs6 reply where cr: "commandReply env sid fs5 m (trim content) = (fs6, reply)"
      by (cases "commandReply env sid fs5 m (trim content)") auto
    define d7 where "d7 = ContentBlock aid 0 (TextBlock reply)"
    define d8 where "d8 = MessageEnd aid EndTurn"
    obtain fs7 w7 c7 where a7: "append ?S fs6 w5 ''content_block'' d7 = (fs7, w7, c7)"
      by (cases "append ?S fs6 w5 ''content_block'' d7") auto
    obtain fs8 w8 c8 where a8: "append ?S fs7 w7 ''message_end'' d8 = (fs8, w8, c8)"
      by (cases "append ?S fs7 w7 ''message_end'' d8") auto
    define U2 :: "meta \<Rightarrow> meta" where "U2 = (\<lambda>m. m\<lparr>messageCount := c8\<rparr>)"
    obtain fs9 w9 where cm9: "commit fs8 w8 U2 = (fs9, w9)"
      by (cases "commit fs8 w8 U2") auto
    define s4 where "s4 = st\<lparr>queue := Some (the_queue st), nextId := nextId st + 1, e_fs := fs4\<rparr>"
    define s9 where "s9 = st\<lparr>queue := Some (the_queue st), nextId := nextId st + 2, e_fs := fs9\<rparr>"
    have res: "fst (submit env sid st content imagePath) = emitCodexSessionMetaUpdate env sid s9"
      using ne m w0 a1 a2 a3 cm True a5 cr a7 a8 cm9
      unfolding prompt_def uid_def d1_def d2_def d3_def U_def aid_def d5_def d7_def d8_def U2_def
        s9_def
      by (simp add: submit_def Let_def numeral_2_eq_2)
    have 1: "sim al 0 env p sq s4"
    proof (rule sim_one [of _ _ _ _ "[d1, d2, d3]"])
      show "jstep ?S p (e_fs sq) (e_fs s4) [d1, d2, d3]"
        using j4 by (simp add: sq_def s4_def)
      show "cancelled_ends [d1, d2, d3] \<le> 0"
        by (simp add: d1_def d2_def d3_def)
      have e: "abs_state p s4 = (abs_state p sq)\<lparr>a_nextId := Suc (a_nextId (abs_state p sq))\<rparr>"
        by (simp add: s4_def sq_def abs_state_def)
      have u: "uid = a_nextId (abs_state p sq)" by (simp add: uid_def sq_def)
      show "astep al (abs_state p sq, D) (abs_state p s4, D @ [d1, d2, d3])" for D
        unfolding e d1_def d2_def d3_def u by (rule A_message)
    qed
    from append_jstep [OF jstep_fsok [OF j4] wp4 a5]
    have j5: "jstep ?S p fs4 fs5 [d5]" and wp5: "wpaths p w5" by simp_all
    from commandReply_jstep [OF v jstep_fsok [OF j5], of ?S env m "trim content"] cr
    have j6: "jstep ?S p fs5 fs6 []" by simp
    from append_jstep [OF jstep_fsok [OF j6] wp5 a7]
    have j7: "jstep ?S p fs6 fs7 [d7]" and wp7: "wpaths p w7" by simp_all
    from append_jstep [OF jstep_fsok [OF j7] wp7 a8]
    have j8: "jstep ?S p fs7 fs8 [d8]" and wp8: "wpaths p w8" by simp_all
    from commit_jstep [OF jstep_fsok [OF j8] wp8 cm9]
    have j9: "jstep ?S p fs8 fs9 []" by simp
    from jstep_trans [OF jstep_trans [OF jstep_trans [OF jstep_trans [OF j5 j6] j7] j8] j9]
    have j49: "jstep ?S p fs4 fs9 [d5, d7, d8]" by simp
    have 2: "sim al 0 env p s4 s9"
    proof (rule sim_one [of _ _ _ _ "[d5, d7, d8]"])
      show "jstep ?S p (e_fs s4) (e_fs s9) [d5, d7, d8]"
        using j49 by (simp add: s4_def s9_def)
      show "cancelled_ends [d5, d7, d8] \<le> 0"
        by (simp add: d5_def d7_def d8_def)
      have e: "abs_state p s9 = (abs_state p s4)\<lparr>a_nextId := Suc (a_nextId (abs_state p s4))\<rparr>"
        by (simp add: s4_def s9_def abs_state_def)
      have u: "aid = a_nextId (abs_state p s4)" by (simp add: aid_def s4_def)
      show "astep al (abs_state p s4, D) (abs_state p s9, D @ [d5, d7, d8])" for D
        unfolding e d5_def d7_def d8_def u by (rule A_message)
    qed
    have 3: "sim al 0 env p s9 (emitCodexSessionMetaUpdate env sid s9)"
      by (rule sim_emit [OF v sim_fsok [OF 2]])
    have ab: "abs_state p s9 = (abs_state p st)\<lparr>a_queue := Some (the_queue st),
        a_nextId := nextId st + 2\<rparr>"
      by (simp add: s9_def abs_state_def)
    from sim_trans [OF sim_trans [OF sim_trans [OF 0 1] 2] 3]
    have "sim al 0 env p st (fst (submit env sid st content imagePath))"
      by (simp add: res)
    then show ?thesis
      using ne True by (simp add: res ab)
  qed
qed

lemma sim_submit:
  assumes v: "getSessionPaths sid = Inr p" and ok: "fsok p (e_fs st)"
  shows "sim al 0 env p st (fst (submit env sid st content imagePath))"
  using submit_effect [OF v ok] by blast


lemma sim_steps:
  assumes "jstep (JSON_stringify env) p (e_fs st) (e_fs st') ds" and "cancelled_ends ds \<le> k"
    and "\<And>D. (astep al)\<^sup>*\<^sup>* (abs_state p st, D) (abs_state p st', D @ ds)"
  shows "sim al k env p st st'"
  unfolding sim_def using assms by (intro exI [of _ ds]) blast

lemma startNext_effect:
  assumes v: "getSessionPaths sid = Inr p" and ok: "fsok p (e_fs st)"
    and c: "ctrl_inv (abs_state p st)" and al: "al \<or> binExists"
  shows "sim al 0 env p st (startNextCodexTurn env sid binExists st) \<and>
     abs_state p (startNextCodexTurn env sid binExists st) =
       (if active st \<or> the_queue st = [] then abs_state p st
        else (abs_state p st)\<lparr>a_active := binExists,
               a_proc := (if binExists then Some (length (runs st)) else None),
               a_finalize := (if binExists then Some (length (runs st)) else None),
               a_queue := Some (tl (the_queue st)), a_nextId := nextId st + 1,
               a_runs := a_runs (abs_state p st) @
                 [\<lparr>a_mid = nextId st, a_finished = \<not> binExists,
                   a_child = (if binExists then Some False else None),
                   a_turn = hd (the_queue st), a_wpaths = True\<rparr>]\<rparr>)"
proof (cases "active st")
  case True
  then show ?thesis using ok by (simp add: startNextCodexTurn_def sim_refl)
next
  case na: False
  show ?thesis
  proof (cases "the_queue st")
    case Nil
    then show ?thesis using ok na by (simp add: startNextCodexTurn_def sim_refl)
  next
    case (Cons t rest)
    from read_ok [OF v ok] obtain m where m: "readSessionMeta (e_fs st) sid = Inr m" by blast
    from open_ok [OF v ok] obtain w where w: "createEventWriter (JSON_parse env) (e_fs st) sid = Inr (e_fs st, w)"
      and wp: "wpaths p w" by blast
    let ?rid = "length (runs st)"
    define r where "r = \<lparr>r_sessionMeta = m, r_writer = w, r_turn = t,
        r_assistantMessageId = nextId st, r_blockIndex = 0, r_stderrBuf = [], r_finished = False,
        r_assistantPreview = [], r_latestThreadId = [],
        r_lastCursor = cursor_or_0 (w_meta w), r_proc = None\<rparr>"
    define sb where "sb = st\<lparr>queue := Some rest, nextId := nextId st + 1, runs := runs st @ [r],
        finalize := Some ?rid, active := True\<rparr>"
    define sc where "sc = emitCodexSessionMetaUpdate env sid sb"
    define sd where "sd = sc\<lparr>runs := (runs sc)[?rid := (runs sc ! ?rid)
        \<lparr>r_stderrBuf := ''Executable not found: '' @ CODEX_BIN env\<rparr>]\<rparr>"
    define se where "se = run_append env sc ?rid ''message_start''
        (MessageStart (nextId st) (plus1 (r_lastCursor (runs sc ! ?rid))) Assistant sid)"
    define sf where "sf = se\<lparr>runs := (runs se)[?rid := (runs se ! ?rid)\<lparr>r_proc := Some False\<rparr>],
        proc := Some ?rid\<rparr>"
    have res: "startNextCodexTurn env sid binExists st =
        (if \<not> binExists then finalizeRun env sid sd ?rid Error None else sf)"
      using na Cons m w
      by (simp add: startNextCodexTurn_def Let_def r_def sb_def sc_def sd_def se_def sf_def)
    let ?a = "abs_state p st"
    have cr: "core p r = \<lparr>a_mid = a_nextId ?a, a_finished = False, a_child = None, a_turn = t, a_wpaths = True\<rparr>"
      using wp by (simp add: core_def r_def abs_state_def)
    have ab: "abs_state p sb = ?a\<lparr>a_active := True, a_finalize := Some (length (a_runs ?a)),
          a_queue := Some rest, a_nextId := Suc (a_nextId ?a),
          a_runs := a_runs ?a @ [\<lparr>a_mid = a_nextId ?a, a_finished = False, a_child = None,
                                  a_turn = t, a_wpaths = True\<rparr>]\<rparr>"
      unfolding cr [symmetric] by (simp add: abs_state_def sb_def)
    have okb: "fsok p (e_fs sb)" using ok by (simp add: sb_def)
    have 2: "sim al 0 env p sb sc"
      unfolding sc_def by (rule sim_emit [OF v okb])
    from emit_form [of env sid sb] obtain fs' where scf: "sc = sb\<lparr>e_fs := fs'\<rparr>"
      unfolding sc_def by blast
    have okc: "fsok p (e_fs sc)" by (rule sim_fsok [OF 2])
    have ac: "abs_state p sc = abs_state p sb" by (simp add: scf)
    from ctrl_inv_step have cb: "ctrl_inv (abs_state p sb)"
      unfolding ab using ctrl_start [OF c] na by (simp add: abs_state_def)
    have rc: "runs sc = runs st @ [r]" by (simp add: scf sb_def)
    have lc: "?rid < length (runs sc)" by (simp add: rc)
    have rr: "runs sc ! ?rid = r" by (simp add: rc)
    show ?thesis
    proof (cases binExists)
      case False
      with al have al': al by simp
      have 1: "sim al 0 env p st sb"
      proof (rule sim_silent [OF ok])
        show "e_fs sb = e_fs st" by (simp add: sb_def)
        show "astep al (?a, D) (abs_state p sb, D)" for D
          unfolding ab by (rule A_start) (use al' na Cons in simp_all)
      qed
      have ad: "abs_state p sd = abs_state p sc"
        unfolding sd_def by (rule abs_runs_update) (simp add: core_def)
      have 3: "sim al 0 env p sc sd"
        by (rule sim_abs_eq [OF okc]) (simp_all add: ad, simp add: sd_def)
      have "sim al (if Error = Cancelled then 1 else 0) env p sd (finalizeRun env sid sd ?rid Error None)"
      proof (rule sim_finalize)
        show "getSessionPaths sid = Inr p" by (rule v)
        show "?rid < length (runs sd)" by (simp add: sd_def rc)
        show "fsok p (e_fs sd)" using okc by (simp add: sd_def)
        show "wpaths p (r_writer (runs sd ! ?rid))" using wp by (simp add: sd_def rc r_def)
        show "\<not> r_finished (runs sd ! ?rid)" by (simp add: sd_def rc r_def)
        show "al \<or> r_proc (runs sd ! ?rid) \<noteq> None" using al' by simp
      qed
      then have 4: "sim al 0 env p sd (finalizeRun env sid sd ?rid Error None)" by simp
      have "\<exists>blocks d. abs_state p (finalizeRun env sid sd ?rid Error None) =
          (abs_state p sd)\<lparr>a_active := False, a_proc := None, a_finalize := None,
             a_runs := (a_runs (abs_state p sd))
               [?rid := (a_runs (abs_state p sd) ! ?rid)\<lparr>a_finished := True\<rparr>]\<rparr> \<and>
          jstep (JSON_stringify env) p (e_fs sd) (e_fs (finalizeRun env sid sd ?rid Error None))
            (blocks @ [MessageEnd (r_assistantMessageId (runs sd ! ?rid)) Error, d]) \<and>
          is_meta d \<and>
          (blocks = [] \<or> (\<exists>i b. blocks = [ContentBlock (r_assistantMessageId (runs sd ! ?rid)) i b]))"
      proof (rule finalizeRun_effect)
        show "getSessionPaths sid = Inr p" by (rule v)
        show "?rid < length (runs sd)" by (simp add: sd_def rc)
        show "fsok p (e_fs sd)" using okc by (simp add: sd_def)
        show "wpaths p (r_writer (runs sd ! ?rid))" using wp by (simp add: sd_def rc r_def)
        show "\<not> r_finished (runs sd ! ?rid)" by (simp add: sd_def rc r_def)
      qed
      then have "abs_state p (finalizeRun env sid sd ?rid Error None) =
          (abs_state p sd)\<lparr>a_active := False, a_proc := None, a_finalize := None,
             a_runs := (a_runs (abs_state p sd))
               [?rid := (a_runs (abs_state p sd) ! ?rid)\<lparr>a_finished := True\<rparr>]\<rparr>"
        by blast
      then have af: "abs_state p (finalizeRun env sid sd ?rid Error None) =
          (abs_state p st)\<lparr>a_active := False, a_proc := None, a_finalize := None,
             a_queue := Some rest, a_nextId := nextId st + 1,
             a_runs := a_runs (abs_state p st) @
               [\<lparr>a_mid = nextId st, a_finished = True, a_child = None,
                 a_turn = t, a_wpaths = True\<rparr>]\<rparr>"
        unfolding ad ac ab by (simp add: abs_state_def nth_append list_update_append)
      from sim_trans [OF sim_trans [OF sim_trans [OF 1 2] 3] 4] show ?thesis
        unfolding res using False na Cons by (simp add: af)
    next
      case True
      let ?ms = "MessageStart (nextId st) (plus1 (r_lastCursor (runs sc ! ?rid))) Assistant sid"
      from emit_effect [OF v okb, of env] obtain fs' d where
        scf': "sc = sb\<lparr>e_fs := fs'\<rparr>" and jd: "jstep (JSON_stringify env) p (e_fs sb) fs' [d]"
        and md: "is_meta d"
        unfolding sc_def by blast
      have jc: "jstep (JSON_stringify env) p (e_fs st) (e_fs sc) [d]"
        using jd by (simp add: scf' sb_def)
      have ae: "abs_state p se = abs_state p sc" by (simp add: se_def)
      have je: "jstep (JSON_stringify env) p (e_fs sc) (e_fs se) [?ms]"
        unfolding se_def by (rule run_append_jstep [OF lc okc]) (simp add: rr r_def wp)
      have le: "?rid < length (runs se)" using lc abs_length [of p se] abs_length [of p sc] ae by simp
      have af: "abs_state p sf = (abs_state p sc)\<lparr>a_proc := Some ?rid,
          a_runs := (a_runs (abs_state p sc))[?rid := (a_runs (abs_state p sc) ! ?rid)\<lparr>a_child := Some False\<rparr>]\<rparr>"
        unfolding ae [symmetric] using le
        by (simp add: sf_def abs_state_def map_update core_def)
      have ag: "abs_state p sf = ?a\<lparr>a_active := True, a_finalize := Some (length (a_runs ?a)), a_queue := Some rest,
          a_nextId := Suc (a_nextId ?a), a_proc := Some (length (a_runs ?a)),
          a_runs := a_runs ?a @ [\<lparr>a_mid = a_nextId ?a, a_finished = False, a_child = Some False,
                                  a_turn = t, a_wpaths = True\<rparr>]\<rparr>"
        unfolding af ac ab by (simp add: nth_append list_update_append)
      have "sim al 0 env p st sf"
      proof (rule sim_steps [of _ _ _ _ "[d, ?ms]"])
        from jstep_trans [OF jc je] show "jstep (JSON_stringify env) p (e_fs st) (e_fs sf) [d, ?ms]"
          by (simp add: sf_def)
        show "cancelled_ends [d, ?ms] \<le> 0"
          using md by (cases d) simp_all
        show "(astep al)\<^sup>*\<^sup>* (?a, D) (abs_state p sf, D @ [d, ?ms])" for D
        proof -
          have "astep al (?a, D) (?a, D @ [d])" by (rule A_meta [OF md])
          moreover have "astep al (?a, D @ [d]) (abs_state p sf, (D @ [d]) @ [?ms])"
            unfolding ag using A_begin [of ?a t rest al "D @ [d]"] na Cons by simp
          ultimately show ?thesis by simp
        qed
      qed
      moreover have "abs_state p sf =
          (abs_state p st)\<lparr>a_active := True, a_proc := Some (length (runs st)),
             a_finalize := Some (length (runs st)),
             a_queue := Some rest, a_nextId := nextId st + 1,
             a_runs := a_runs (abs_state p st) @
               [\<lparr>a_mid = nextId st, a_finished = False, a_child = Some False,
                 a_turn = t, a_wpaths = True\<rparr>]\<rparr>"
        unfolding ag by (simp add: abs_state_def)
      ultimately show ?thesis
        unfolding res using True na Cons by simp
    qed
  qed
qed

lemma sim_startNext:
  assumes v: "getSessionPaths sid = Inr p" and ok: "fsok p (e_fs st)"
    and c: "ctrl_inv (abs_state p st)" and al: "al \<or> binExists"
  shows "sim al 0 env p st (startNextCodexTurn env sid binExists st)"
  using startNext_effect [OF v ok c al] by blast


lemma spawned_step:
  "astep allow x y \<Longrightarrow> \<not> allow \<Longrightarrow> spawned (fst x) \<Longrightarrow> spawned (fst y)"
  by (induction rule: astep.induct) (auto simp: spawned_def nth_list_update nth_append)

lemma sim_kill:
  assumes ok: "fsok p (e_fs st)" and l: "rid < length (runs st)"
  shows "sim al 0 env p st
     (if r_proc (runs st ! rid) = Some False
      then st\<lparr>runs := (runs st)[rid := (runs st ! rid)\<lparr>r_proc := Some True\<rparr>]\<rparr> else st)"
proof (cases "r_proc (runs st ! rid) = Some False")
  case False
  then show ?thesis using ok by (simp add: sim_refl)
next
  case True
  let ?a = "abs_state p st"
  let ?s = "st\<lparr>runs := (runs st)[rid := (runs st ! rid)\<lparr>r_proc := Some True\<rparr>]\<rparr>"
  have e: "abs_state p ?s = ?a\<lparr>a_runs := (a_runs ?a)[rid := (a_runs ?a ! rid)\<lparr>a_child := Some True\<rparr>]\<rparr>"
    using l by (simp add: abs_state_def map_update core_def)
  have "sim al 0 env p st ?s"
  proof (rule sim_silent [OF ok])
    show "e_fs ?s = e_fs st" by simp
    show "astep al (?a, D) (abs_state p ?s, D)" for D
      unfolding e by (rule A_kill) (use l True abs_child [OF l, of p] in simp_all)
  qed
  then show ?thesis using True by simp
qed

lemma cancel_idle:
  assumes "finalize st = None" and "proc st = None"
  shows "cancel env sid st cq =
     (emitCodexSessionMetaUpdate env sid (if cq then st\<lparr>queue := Some []\<rparr> else st),
      \<lparr>ok = True, cancelled = False, running = False, clearedQueue = cq\<rparr>)"
  using assms by (simp add: cancel_def Let_def)

lemma sim_qclear:
  assumes ok: "fsok p (e_fs st)"
  shows "sim al 0 env p st (if cq then st\<lparr>queue := Some []\<rparr> else st)"
proof (cases cq)
  case False
  then show ?thesis using ok by (simp add: sim_refl)
next
  case True
  have "sim al 0 env p st (st\<lparr>queue := Some []\<rparr>)"
  proof (rule sim_silent [OF ok])
    show "e_fs (st\<lparr>queue := Some []\<rparr>) = e_fs st" by simp
    have "abs_state p (st\<lparr>queue := Some []\<rparr>) = (abs_state p st)\<lparr>a_queue := Some []\<rparr>"
      by (simp add: abs_state_def)
    then show "astep al (abs_state p st, D) (abs_state p (st\<lparr>queue := Some []\<rparr>), D)" for D
      using A_qclear [of al "abs_state p st" D] by simp
  qed
  then show ?thesis using True by simp
qed

lemma finalizeRun_control:
  assumes v: "getSessionPaths sid = Inr p" and l: "rid < length (runs st)"
    and ok: "fsok p (e_fs st)" and wp: "wpaths p (r_writer (runs st ! rid))"
    and u: "\<not> r_finished (runs st ! rid)"
  shows "finalize (finalizeRun env sid st rid reason code) = None \<and>
     proc (finalizeRun env sid st rid reason code) = None \<and>
     \<not> active (finalizeRun env sid st rid reason code) \<and>
     queue (finalizeRun env sid st rid reason code) = queue st \<and>
     length (runs (finalizeRun env sid st rid reason code)) = length (runs st)"
proof -
  let ?s = "finalizeRun env sid st rid reason code"
  from finalizeRun_effect [OF v l ok wp u, of env reason code]
  have e: "abs_state p ?s =
       (abs_state p st)\<lparr>a_active := False, a_proc := None, a_finalize := None,
          a_runs := (a_runs (abs_state p st))
          [rid := (a_runs (abs_state p st) ! rid)\<lparr>a_finished := True\<rparr>]\<rparr>"
    by blast
  have "a_finalize (abs_state p ?s) = None" "a_proc (abs_state p ?s) = None"
    "\<not> a_active (abs_state p ?s)" "a_queue (abs_state p ?s) = queue st"
    "length (a_runs (abs_state p ?s)) = length (runs st)"
    unfolding e by simp_all
  then show ?thesis by simp
qed

lemma sim_cancel:
  assumes v: "getSessionPaths sid = Inr p" and ok: "fsok p (e_fs st)"
    and c: "ctrl_inv (abs_state p st)" and sp: "al \<or> spawned (abs_state p st)"
  shows "sim al 1 env p st (fst (cancel env sid st cq))"
proof -
  define s1 where "s1 = (if cq then st\<lparr>queue := Some []\<rparr> else st)"
  have 1: "sim al 0 env p st s1" unfolding s1_def by (rule sim_qclear [OF ok])
  have ok1: "fsok p (e_fs s1)" by (rule sim_fsok [OF 1])
  have f1: "finalize s1 = finalize st" "proc s1 = proc st" "runs s1 = runs st"
    by (simp_all add: s1_def)
  have c1: "ctrl_inv (abs_state p s1)"
    using c by (subst ctrl_inv_cong [of _ "abs_state p st"]) (simp_all add: s1_def abs_state_def)
  show ?thesis
  proof (cases "finalize st")
    case None
    then have pn: "proc st = None" using ctrl_proc [OF c] by (cases "proc st") simp_all
    have "sim al 0 env p s1 (emitCodexSessionMetaUpdate env sid s1)"
      by (rule sim_emit [OF v ok1])
    from sim_trans [OF 1 this] have "sim al 0 env p st (fst (cancel env sid st cq))"
      using None pn by (simp add: cancel_idle s1_def)
    then show ?thesis by (rule sim_mono) simp
  next
    case (Some rid)
    with ctrl_fin [OF c, of rid] have l: "rid < length (runs st)"
      and u': "\<not> a_finished (a_runs (abs_state p st) ! rid)" by simp_all
    from u' have u: "\<not> r_finished (runs st ! rid)" by (simp add: abs_finished [OF l, of p])
    have ch: "al \<or> r_proc (runs s1 ! rid) \<noteq> None"
      using sp Some abs_child [OF l, of p] by (auto simp: spawned_def f1)
    define s2 where "s2 = finalizeRun env sid s1 rid Cancelled None"
    have "sim al (if Cancelled = Cancelled then 1 else 0) env p s1 s2"
      unfolding s2_def by (rule sim_finalize_any [OF v ok1 c1 _ ch]) (simp add: f1 l)
    then have 2: "sim al 1 env p s1 s2" by simp
    have l2: "length (runs s2) = length (runs st)"
      unfolding s2_def
      using finalizeRun_control [OF v _ ok1 wp_of_ctrl [OF c1], of rid env Cancelled None] l u
      by (simp add: f1)
    define s3 where "s3 = (case proc st of None \<Rightarrow> s2
        | Some r \<Rightarrow> if r_proc (runs s2 ! r) = Some False
            then s2\<lparr>runs := (runs s2)[r := (runs s2 ! r)\<lparr>r_proc := Some True\<rparr>]\<rparr> else s2)"
    have 3: "sim al 0 env p s2 s3"
    proof (cases "proc st")
      case None
      then show ?thesis using sim_fsok [OF 2] by (simp add: s3_def sim_refl)
    next
      case (Some r)
      with ctrl_proc [OF c, of r] \<open>finalize st = Some rid\<close> have "r = rid" by simp
      with l l2 have "r < length (runs s2)" by simp
      from sim_kill [OF sim_fsok [OF 2] this, of al env] show ?thesis
        using Some by (simp add: s3_def)
    qed
    have 4: "sim al 0 env p s3 (emitCodexSessionMetaUpdate env sid s3)"
      by (rule sim_emit [OF v sim_fsok [OF 3]])
    have res: "fst (cancel env sid st cq) = emitCodexSessionMetaUpdate env sid s3"
      using Some by (simp add: cancel_def Let_def s1_def [symmetric] f1 s2_def [symmetric] s3_def
          split: option.splits)
    from sim_trans [OF sim_trans [OF sim_trans [OF 1 2] 3] 4] show ?thesis
      unfolding res by simp
  qed
qed


lemma sim_child:
  assumes v: "getSessionPaths sid = Inr p" and ok: "fsok p (e_fs st)"
    and c: "ctrl_inv (abs_state p st)" and ch: "is_child_event ev"
  shows "sim al 0 env p st (step env sid st ev)"
proof (cases ev)
  case (StdoutLine rid e)
  then show ?thesis using sim_stdout [OF ok c, of rid al env e] ok by (simp add: sim_refl)
next
  case (StderrData rid tx)
  then show ?thesis using sim_stderr [OF ok, of al env rid tx] ok by (simp add: sim_refl)
next
  case (ProcClose rid code)
  then show ?thesis using sim_close [OF v ok c, of rid al env code] ok by (simp add: sim_refl)
next
  case (ProcError rid message)
  then show ?thesis using sim_error [OF v ok c, of rid al env message] ok by (simp add: sim_refl)
qed (use ch in simp_all)

lemma sim_step:
  assumes v: "getSessionPaths sid = Inr p" and ok: "fsok p (e_fs st)"
    and c: "ctrl_inv (abs_state p st)"
    and a: "al \<or> (spawned (abs_state p st) \<and> ev \<noteq> StartNext False)"
  shows "sim al 1 env p st (step env sid st ev)"
proof (cases "is_child_event ev")
  case True
  from sim_child [OF v ok c True] show ?thesis by (rule sim_mono) simp
next
  case False
  show ?thesis
  proof (cases ev)
    case (Submit content imagePath)
    from sim_mono [OF sim_submit [OF v ok, of al env content imagePath], of 1] show ?thesis
      unfolding Submit by simp
  next
    case (Cancel cq)
    from a have "al \<or> spawned (abs_state p st)" by blast
    from sim_cancel [OF v ok c this, of env cq] show ?thesis
      unfolding Cancel by simp
  next
    case (StartNext b)
    with a have "al \<or> b" by auto
    from sim_mono [OF sim_startNext [OF v ok c this, of env], of 1] show ?thesis
      unfolding StartNext by simp
  qed (use False in simp_all)
qed

lemma ctrl_inv_steps: "(astep al)\<^sup>*\<^sup>* x y \<Longrightarrow> ctrl_inv (fst x) \<Longrightarrow> ctrl_inv (fst y)"
  by (induction rule: rtranclp_induct) (auto intro: ctrl_inv_step)

lemma fifo_inv_steps: "(astep al)\<^sup>*\<^sup>* x y \<Longrightarrow> fifo_inv (fst x) \<Longrightarrow> fifo_inv (fst y)"
  by (induction rule: rtranclp_induct) (auto intro: fifo_inv_step)

lemma spawned_steps:
  "(astep al)\<^sup>*\<^sup>* x y \<Longrightarrow> \<not> al \<Longrightarrow> spawned (fst x) \<Longrightarrow> spawned (fst y)"
  by (induction rule: rtranclp_induct) (auto intro: spawned_step)

lemma journal_inv_steps:
  "(astep al)\<^sup>*\<^sup>* x y \<Longrightarrow> \<not> al \<Longrightarrow> journal_inv x \<Longrightarrow> journal_inv y"
  by (induction rule: rtranclp_induct) (auto intro: journal_inv_step)

lemma good_sim:
  assumes g: "good al env p st" and s: "sim al k env p st st'"
  shows "good al env p st'"
proof -
  from s obtain ds where j: "jstep (JSON_stringify env) p (e_fs st) (e_fs st') ds"
    and st: "\<And>D. (astep al)\<^sup>*\<^sup>* (abs_state p st, D) (abs_state p st', D @ ds)"
    unfolding sim_def by blast
  from g have c: "ctrl_inv (abs_state p st)" and f: "fifo_inv (abs_state p st)"
    unfolding good_def by blast+
  have 1: "fsok p (e_fs st')" by (rule jstep_fsok [OF j])
  have 2: "ctrl_inv (abs_state p st')" using ctrl_inv_steps [OF st [of "[]"]] c by simp
  have 3: "fifo_inv (abs_state p st')" using fifo_inv_steps [OF st [of "[]"]] f by simp
  have 4: "spawned (abs_state p st') \<and>
      (\<exists>rs. jtext p (e_fs st') = render (JSON_stringify env) rs \<and>
            journal_inv (abs_state p st', map r_data rs))" if na: "\<not> al"
  proof -
    from g na obtain rs where sp: "spawned (abs_state p st)"
      and tx: "jtext p (e_fs st) = render (JSON_stringify env) rs"
      and ji: "journal_inv (abs_state p st, map r_data rs)"
      unfolding good_def by blast
    from j obtain rs' where r': "map r_data rs' = ds"
      and tx': "jtext p (e_fs st') = jtext p (e_fs st) @ render (JSON_stringify env) rs'"
      unfolding jstep_def by blast
    have a: "spawned (abs_state p st')" using spawned_steps [OF st [of "[]"] na] sp by simp
    have b: "journal_inv (abs_state p st', map r_data (rs @ rs'))"
      using journal_inv_steps [OF st [of "map r_data rs"] na ji] by (simp add: r')
    have "jtext p (e_fs st') = render (JSON_stringify env) (rs @ rs')"
      by (simp add: tx' tx render_append)
    with a b show ?thesis by blast
  qed
  from 1 2 3 4 show ?thesis unfolding good_def by blast
qed

lemma good_step:
  assumes v: "getSessionPaths sid = Inr p" and g: "good al env p st"
    and a: "al \<or> ev \<noteq> StartNext False"
  shows "good al env p (step env sid st ev)"
proof -
  from g have ok: "fsok p (e_fs st)" and c: "ctrl_inv (abs_state p st)"
    and sp: "al \<or> spawned (abs_state p st)"
    unfolding good_def by blast+
  from a sp have "al \<or> (spawned (abs_state p st) \<and> ev \<noteq> StartNext False)" by blast
  from good_sim [OF g sim_step [OF v ok c this]] show ?thesis .
qed

lemma good_init:
  assumes v: "getSessionPaths sid = Inr p"
  shows "good al env p (new_session env sid dir)"
proof -
  have fs: "e_fs (new_session env sid dir) =
      \<lparr>sidecars = [metaPath p \<mapsto> \<lparr>lastCursor = Some 0, model = CODEX_MODEL env, cwd = dir,
           messageCount = 0, lastMessagePreview = [], latestThreadId = []\<rparr>],
       journals = [jsonlPath p \<mapsto> []]\<rparr>"
    using v by (simp add: new_session_def createCodexSession_def writeSessionMeta_def
        touchEventLog_def Let_def)
  have a: "abs_state p (new_session env sid dir) =
      \<lparr>a_active = False, a_proc = None, a_finalize = None, a_queue = None, a_nextId = 0,
       a_runs = []\<rparr>"
    by (simp add: abs_state_def new_session_def)
  have 1: "fsok p (e_fs (new_session env sid dir))" by (simp add: fs fsok_def)
  have 2: "ctrl_inv (abs_state p (new_session env sid dir))" by (simp add: a ctrl_inv_def)
  have 3: "fifo_inv (abs_state p (new_session env sid dir))"
    by (simp add: a fifo_inv_def aq_def)
  have 4: "spawned (abs_state p (new_session env sid dir))" by (simp add: a spawned_def)
  have 5: "jtext p (e_fs (new_session env sid dir)) = render (JSON_stringify env) []"
    by (simp add: fs jtext_def render_def)
  have 6: "journal_inv (abs_state p (new_session env sid dir), map r_data ([] :: event_data jrecord list))"
    by (simp add: a journal_inv_def messages_wf_def phases_def phase_of_def)
  from 1 2 3 4 5 6 show ?thesis unfolding good_def by blast
qed

lemma good_run:
  assumes v: "getSessionPaths sid = Inr p" and g: "good al env p st"
    and a: "al \<or> list_all (\<lambda>ev. ev \<noteq> StartNext False) evs"
  shows "good al env p (run_events env sid st evs)"
  using g a
proof (induction evs arbitrary: st)
  case Nil
  then show ?case by (simp add: run_events_def)
next
  case (Cons ev evs)
  from Cons.prems(2) have "al \<or> ev \<noteq> StartNext False" by auto
  from good_step [OF v Cons.prems(1) this] have "good al env p (step env sid st ev)" .
  from Cons.IH [OF this] Cons.prems(2) show ?case by (auto simp: run_events_def)
qed


subsection \<open>C4: one turn at a time, in the order submitted\<close>









subsection \<open>C7: cancelling twice\<close>

lemma emit_fields:
  "finalize (emitCodexSessionMetaUpdate env sid st) = finalize st"
  "proc (emitCodexSessionMetaUpdate env sid st) = proc st"
  "queue (emitCodexSessionMetaUpdate env sid st) = queue st"
  "runs (emitCodexSessionMetaUpdate env sid st) = runs st"
  "active (emitCodexSessionMetaUpdate env sid st) = active st"
  "nextId (emitCodexSessionMetaUpdate env sid st) = nextId st"
  using emit_form [of env sid st] by auto

lemma cancel_control:
  assumes v: "getSessionPaths sid = Inr p" and ok: "fsok p (e_fs st)"
    and c: "ctrl_inv (abs_state p st)"
  shows "finalize (fst (cancel env sid st cq)) = None \<and>
     proc (fst (cancel env sid st cq)) = None \<and>
     the_queue (fst (cancel env sid st cq)) = (if cq then [] else the_queue st) \<and>
     snd (cancel env sid st cq) =
       \<lparr>ok = True, cancelled = (finalize st \<noteq> None), running = (finalize st \<noteq> None),
        clearedQueue = cq\<rparr>"
proof -
  define s1 where "s1 = (if cq then st\<lparr>queue := Some []\<rparr> else st)"
  have f1: "finalize s1 = finalize st" "proc s1 = proc st" "runs s1 = runs st"
    "the_queue s1 = (if cq then [] else the_queue st)" "e_fs s1 = e_fs st"
    by (simp_all add: s1_def the_queue_def)
  have c1: "ctrl_inv (abs_state p s1)"
    using c by (subst ctrl_inv_cong [of _ "abs_state p st"]) (simp_all add: s1_def abs_state_def)
  show ?thesis
  proof (cases "finalize st")
    case None
    then have pn: "proc st = None" using ctrl_proc [OF c] by (cases "proc st") simp_all
    show ?thesis
      using None pn f1 by (simp add: cancel_idle s1_def [symmetric] emit_fields the_queue_def)
  next
    case (Some rid)
    with ctrl_fin [OF c, of rid] have l: "rid < length (runs st)"
      and u': "\<not> a_finished (a_runs (abs_state p st) ! rid)" by simp_all
    from u' have u: "\<not> r_finished (runs st ! rid)" by (simp add: abs_finished [OF l, of p])
    define s2 where "s2 = finalizeRun env sid s1 rid Cancelled None"
    have k: "finalize s2 = None \<and> proc s2 = None \<and> \<not> active s2 \<and> queue s2 = queue s1 \<and>
        length (runs s2) = length (runs s1)"
      unfolding s2_def
      by (rule finalizeRun_control [OF v _ _ wp_of_ctrl [OF c1]]) (use l u ok in \<open>simp_all add: f1\<close>)
    define s3 where "s3 = (case proc st of None \<Rightarrow> s2
        | Some r \<Rightarrow> if r_proc (runs s2 ! r) = Some False
            then s2\<lparr>runs := (runs s2)[r := (runs s2 ! r)\<lparr>r_proc := Some True\<rparr>]\<rparr> else s2)"
    have k3: "finalize s3 = None" "proc s3 = None" "queue s3 = queue s1"
      using k by (simp_all add: s3_def split: option.splits)
    have res: "cancel env sid st cq =
        (emitCodexSessionMetaUpdate env sid s3,
         \<lparr>ok = True, cancelled = True, running = True, clearedQueue = cq\<rparr>)"
      using Some by (simp add: cancel_def Let_def s1_def [symmetric] f1 s2_def [symmetric] s3_def
          split: option.splits)
    show ?thesis
      using Some k3 f1(4) by (simp add: res emit_fields the_queue_def)
  qed
qed

lemma all_finished:
  assumes c: "ctrl_inv (abs_state p st)" and f: "finalize st = None" and l: "rid < length (runs st)"
  shows "r_finished (runs st ! rid)"
proof (rule ccontr)
  assume "\<not> r_finished (runs st ! rid)"
  with ctrl_unfin [OF c, of rid] l have "finalize st = Some rid"
    by (simp add: abs_finished [OF l, of p, symmetric])
  with f show False by simp
qed

lemma child_idle:
  assumes c: "ctrl_inv (abs_state p st)" and f: "finalize st = None" and ch: "is_child_event ev"
  shows "abs_state p (step env sid st ev) = abs_state p st"
proof (cases ev)
  case (StdoutLine rid e)
  show ?thesis
    unfolding StdoutLine by (cases e) (simp_all add: abs_runs_update core_def Let_def)
next
  case (StderrData rid tx)
  show ?thesis
    unfolding StderrData by (simp add: onStderrData_def Let_def abs_runs_update core_def)
next
  case (ProcClose rid code)
  show ?thesis
    unfolding ProcClose
    using all_finished [OF c f, of rid]
    by (simp add: has_child_def onClose_def finalizeRun_finished)
next
  case (ProcError rid message)
  let ?st = "st\<lparr>runs := (runs st)[rid := (runs st ! rid)
                   \<lparr>r_stderrBuf := or_else message (r_stderrBuf (runs st ! rid))\<rparr>]\<rparr>"
  have a: "abs_state p ?st = abs_state p st"
    by (simp add: abs_runs_update core_def)
  show ?thesis
  proof (cases "has_child st rid")
    case False
    then show ?thesis unfolding ProcError by simp
  next
    case True
    then have l: "rid < length (runs st)" by (simp add: has_child_def)
    from all_finished [OF c f l] have "r_finished (runs ?st ! rid)" using l by simp
    then have "finalizeRun env sid ?st rid Error None = ?st" by (rule finalizeRun_finished)
    then show ?thesis unfolding ProcError using True a by (simp add: onError_def Let_def)
  qed
qed (use ch in simp_all)

lemma idle_step:
  assumes v: "getSessionPaths sid = Inr p" and g: "good True env p st"
    and f: "finalize st = None" and q: "the_queue st = []"
    and ev: "is_child_event ev \<or> ev = StartNext b"
  shows "sim True 0 env p st (step env sid st ev) \<and>
     finalize (step env sid st ev) = None \<and> the_queue (step env sid st ev) = []"
proof -
  from g have ok: "fsok p (e_fs st)" and c: "ctrl_inv (abs_state p st)"
    unfolding good_def by blast+
  from ev show ?thesis
  proof
    assume ch: "is_child_event ev"
    from child_idle [OF c f ch, of env sid] have a: "abs_state p (step env sid st ev) = abs_state p st" .
    have "finalize (step env sid st ev) = a_finalize (abs_state p (step env sid st ev))"
      "the_queue (step env sid st ev) = aq (abs_state p (step env sid st ev))"
      by simp_all
    then have "finalize (step env sid st ev) = None" "the_queue (step env sid st ev) = []"
      unfolding a using f q by simp_all
    with sim_child [OF v ok c ch, of True env] show ?thesis by simp
  next
    assume s: "ev = StartNext b"
    from startNext_effect [OF v ok c, of True b env] q
    have 1: "sim True 0 env p st (startNextCodexTurn env sid b st)"
      and a: "abs_state p (startNextCodexTurn env sid b st) = abs_state p st"
      by simp_all
    have "finalize (startNextCodexTurn env sid b st) = a_finalize (abs_state p (startNextCodexTurn env sid b st))"
      "the_queue (startNextCodexTurn env sid b st) = aq (abs_state p (startNextCodexTurn env sid b st))"
      by simp_all
    then have "finalize (startNextCodexTurn env sid b st) = None"
      "the_queue (startNextCodexTurn env sid b st) = []"
      unfolding a using f q by simp_all
    with 1 show ?thesis unfolding s by simp
  qed
qed

lemma idle_run:
  assumes v: "getSessionPaths sid = Inr p" and g: "good True env p st"
    and f: "finalize st = None" and q: "the_queue st = []"
    and evs: "list_all (\<lambda>ev. is_child_event ev \<or> ev = StartNext True \<or> ev = StartNext False) evs"
  shows "sim True 0 env p st (run_events env sid st evs) \<and>
     finalize (run_events env sid st evs) = None"
  using g f q evs
proof (induction evs arbitrary: st)
  case Nil
  then show ?case by (simp add: run_events_def good_def sim_refl)
next
  case (Cons ev evs)
  from Cons.prems(4) obtain b where e: "is_child_event ev \<or> ev = StartNext b" by auto
  from idle_step [OF v Cons.prems(1-3) e]
  have 1: "sim True 0 env p st (step env sid st ev)"
    and f': "finalize (step env sid st ev) = None" and q': "the_queue (step env sid st ev) = []"
    by simp_all
  have g': "good True env p (step env sid st ev)" by (rule good_sim [OF Cons.prems(1) 1])
  from Cons.IH [OF g' f' q'] Cons.prems(4)
  have 2: "sim True 0 env p (step env sid st ev) (run_events env sid (step env sid st ev) evs)"
    and f2: "finalize (run_events env sid (step env sid st ev) evs) = None"
    by simp_all
  from sim_trans [OF 1 2] f2 show ?case by (simp add: run_events_def)
qed


lemma sim_cancel_idle:
  assumes v: "getSessionPaths sid = Inr p" and ok: "fsok p (e_fs st)"
    and c: "ctrl_inv (abs_state p st)" and f: "finalize st = None"
  shows "sim al 0 env p st (fst (cancel env sid st cq))"
proof -
  define s1 where "s1 = (if cq then st\<lparr>queue := Some []\<rparr> else st)"
  have 1: "sim al 0 env p st s1" unfolding s1_def by (rule sim_qclear [OF ok])
  from f have pn: "proc st = None" using ctrl_proc [OF c] by (cases "proc st") simp_all
  have "sim al 0 env p s1 (emitCodexSessionMetaUpdate env sid s1)"
    by (rule sim_emit [OF v sim_fsok [OF 1]])
  from sim_trans [OF 1 this] show ?thesis
    using f pn by (simp add: cancel_idle s1_def)
qed

lemma journal_of_jtext: "getSessionPaths sid = Inr p \<Longrightarrow> journal_of sid st = jtext p (e_fs st)"
  by (simp add: journal_of_def jtext_def)

text \<open>How the worked examples are computed.\<close>

lemma example_session_eq:
  "example_session =
     \<lparr>e_fs = \<lparr>sidecars = [metaPath example_paths \<mapsto>
               \<lparr>lastCursor = Some 0, model = ''gpt-5.2-codex'', cwd = ''/tmp'',
                messageCount = 0, lastMessagePreview = [], latestThreadId = []\<rparr>],
             journals = [jsonlPath example_paths \<mapsto> []]\<rparr>,
      active = False, proc = None, finalize = None, queue = None, runs = [], nextId = 0\<rparr>"
  by (simp add: example_session_def new_session_def createCodexSession_def writeSessionMeta_def
      touchEventLog_def Let_def example_env_def example_paths)

lemmas engine_defs = run_events_def submit_def cancel_def startNextCodexTurn_def finalizeRun_def
  emitCodexSessionMetaUpdate_def run_append_def run_content_block_def appendAssistantText_def
  has_child_def createEventWriter_def readSessionMeta_def append_def appendFileSync_def
  commit_def Let_def the_queue_def cursor_or_0_def or_else_def plus1_def isGatewayCommand_def
  trim_def isWhiteSpace_def journal_of_def slice_to_def example_env_def example_paths
  render_def records_of_def eval_nat_numeral

text \<open>
  C7 (as amended). Two cancels of a session with no submit in between, and with no turn
  waiting after the first one (the first cancel clears the queue, or the queue is empty),
  whatever the children do and however often \<open>startNextCodexTurn\<close> is called in between:
  they add at most one \<open>message_end\<close> with the reason \<open>cancelled\<close> to the journal, and the
  second one answers \<open>cancelled: false\<close> and \<open>running: false\<close>.
\<close>

theorem cancel_twice:
  assumes "getSessionPaths sid = Inr p"
    and "st = run_events env sid (new_session env sid dir) evs0"
    and "cq \<or> the_queue st = []"
    and "list_all (\<lambda>ev. is_child_event ev \<or> ev = StartNext True \<or> ev = StartNext False) evs"
    and "s1 = fst (cancel env sid st cq)"
    and "s2 = run_events env sid s1 evs"
  shows "cancelled (snd (cancel env sid s2 cq')) = False \<and>
     running (snd (cancel env sid s2 cq')) = False \<and>
     (\<exists>rs. journal_of sid (fst (cancel env sid s2 cq')) =
             journal_of sid st @ render (JSON_stringify env) rs \<and>
           cancelled_ends (map r_data rs) \<le> 1)"
proof -
  note v = assms(1)
  have g: "good True env p st"
    unfolding assms(2) by (rule good_run [OF v good_init [OF v]]) simp
  then have ok: "fsok p (e_fs st)" and c: "ctrl_inv (abs_state p st)"
    unfolding good_def by blast+
  have 1: "sim True 1 env p st s1"
    unfolding assms(5) by (rule sim_cancel [OF v ok c]) simp
  have g1: "good True env p s1" by (rule good_sim [OF g 1])
  from cancel_control [OF v ok c, of env cq] assms(3)
  have f1: "finalize s1 = None" and q1: "the_queue s1 = []"
    unfolding assms(5) by auto
  from idle_run [OF v g1 f1 q1 assms(4)]
  have 2: "sim True 0 env p s1 s2" and f2: "finalize s2 = None"
    unfolding assms(6) by simp_all
  have g2: "good True env p s2" by (rule good_sim [OF g1 2])
  then have ok2: "fsok p (e_fs s2)" and c2: "ctrl_inv (abs_state p s2)"
    unfolding good_def by blast+
  from cancel_control [OF v ok2 c2, of env cq'] f2
  have r: "cancelled (snd (cancel env sid s2 cq')) = False"
    "running (snd (cancel env sid s2 cq')) = False"
    by simp_all
  have 3: "sim True 0 env p s2 (fst (cancel env sid s2 cq'))"
    by (rule sim_cancel_idle [OF v ok2 c2 f2])
  from sim_trans [OF sim_trans [OF 1 2] 3]
  have "sim True 1 env p st (fst (cancel env sid s2 cq'))" by simp
  then obtain ds where j: "jstep (JSON_stringify env) p (e_fs st) (e_fs (fst (cancel env sid s2 cq'))) ds"
    and k: "cancelled_ends ds \<le> 1"
    unfolding sim_def by blast
  from j obtain rs where "map r_data rs = ds"
    and "jtext p (e_fs (fst (cancel env sid s2 cq'))) = jtext p (e_fs st) @ render (JSON_stringify env) rs"
    unfolding jstep_def by blast
  with k have "\<exists>rs. journal_of sid (fst (cancel env sid s2 cq')) =
             journal_of sid st @ render (JSON_stringify env) rs \<and>
           cancelled_ends (map r_data rs) \<le> 1"
    unfolding journal_of_jtext [OF v] by blast
  with r show ?thesis by blast
qed

text \<open>
  The theorem at a session with one turn running: a cancel that clears the queue, a call
  of \<open>startNextCodexTurn\<close> and a late line of the child, and a second cancel.
\<close>

theorem cancel_twice_witness:
  "cancelled (snd (cancel example_env example_sid
      (run_events example_env example_sid
         (fst (cancel example_env example_sid (example_run [Submit ''one'' [], StartNext True]) True))
         [StartNext True, StdoutLine 0 (AgentMessage ''late'')]) False)) = False \<and>
   running (snd (cancel example_env example_sid
      (run_events example_env example_sid
         (fst (cancel example_env example_sid (example_run [Submit ''one'' [], StartNext True]) True))
         [StartNext True, StdoutLine 0 (AgentMessage ''late'')]) False)) = False"
proof -
  have 2: "example_run [Submit ''one'' [], StartNext True] =
      run_events example_env example_sid (new_session example_env example_sid ''/tmp'')
        [Submit ''one'' [], StartNext True]"
    by (simp add: example_run_def example_session_def)
  have 3: "True \<or> the_queue (example_run [Submit ''one'' [], StartNext True]) = []" by simp
  have 4: "list_all (\<lambda>ev. is_child_event ev \<or> ev = StartNext True \<or> ev = StartNext False)
      [StartNext True, StdoutLine 0 (AgentMessage ''late'')]" by simp
  from cancel_twice [OF example_paths 2 3 4 refl refl, of False]
  show ?thesis by blast
qed

text \<open>
  C7 as stated does not hold when a turn waits: the call of \<open>startNextCodexTurn\<close> that the
  first cancel schedules starts the next turn, and the second cancel cancels that one.
  After two submits and the start of the first turn, a cancel, the scheduled start and
  a second cancel (no submit in between), the second cancel answers \<open>cancelled: true\<close>
  and \<open>running: true\<close>, and the journal has two \<open>message_end\<close> with the reason \<open>cancelled\<close>.
\<close>

theorem cancel_twice_counterexample:
  "cancelled (snd (cancel example_env example_sid
      (example_run [Submit ''one'' [], Submit ''two'' [], StartNext True, Cancel False,
                    StartNext True]) False)) \<and>
   running (snd (cancel example_env example_sid
      (example_run [Submit ''one'' [], Submit ''two'' [], StartNext True, Cancel False,
                    StartNext True]) False)) \<and>
   journal_of example_sid
      (example_run [Submit ''one'' [], Submit ''two'' [], StartNext True, Cancel False,
                    StartNext True, Cancel False]) =
     render stringify_event example_two_cancels \<and>
   cancelled_ends (map r_data example_two_cancels) = 2"
  unfolding example_run_def example_session_eq example_two_cancels_def
  by (simp add: engine_defs cancelled_ends_def
      cong: let_weak_cong prod.case_cong_weak option.case_cong_weak sum.case_cong_weak
        list.case_cong_weak)


subsection \<open>C3: the messages of the journal\<close>





subsection \<open>C10: the model commands\<close>

lemma commandReply_journals [simp]:
  "journals (fst (commandReply env sid fs m tr)) = journals fs"
  by (simp add: commandReply_def writeSessionMeta_def Let_def split: sum.splits)

lemma commandReply_text:
  "snd (commandReply env sid fs m tr) = snd (commandReply env sid fs' m tr)"
  by (simp add: commandReply_def Let_def)

lemma append_facts:
  assumes "append S fs w ev d = (fs', w', c)" and "journals fs (w_jsonlPath w) = Some tx"
    and "- (2 ^ 53) \<le> w_cursor w" and "w_cursor w < 2 ^ 53"
  shows "journals fs' (w_jsonlPath w) =
       Some (tx @ S \<lparr>r_cursor = String (w_cursor w + 1), r_event = ev, r_data = d\<rparr> @ [nl]) \<and>
     sidecars fs' = sidecars fs \<and> w' = w\<lparr>w_cursor := w_cursor w + 1\<rparr> \<and> c = w_cursor w + 1"
  using assms(1,2) by (auto simp: append_effect plus1_safe [OF assms(3,4)])

lemma commit_facts:
  assumes "commit fs w U = (fs', w')"
  shows "sidecars fs' (w_metaPath w) = Some (U ((w_meta w)\<lparr>lastCursor := Some (w_cursor w)\<rparr>)) \<and>
     journals fs' = journals fs \<and> w' = w\<lparr>w_meta := U ((w_meta w)\<lparr>lastCursor := Some (w_cursor w)\<rparr>)\<rparr>"
  using assms by (auto simp: commit_effect)

lemma emit_facts:
  assumes v: "getSessionPaths sid = Inr p"
    and sc: "sidecars (e_fs st) (metaPath p) = Some m"
    and jr: "journals (e_fs st) (jsonlPath p) = Some tx"
    and lc: "lastCursor m = Some c" and b1: "- (2 ^ 53) \<le> c" and b2: "c < 2 ^ 53"
  shows "\<exists>fs'. emitCodexSessionMetaUpdate env sid st = st\<lparr>e_fs := fs'\<rparr> \<and>
     sidecars fs' (metaPath p) = Some (m\<lparr>lastCursor := Some (c + 1)\<rparr>) \<and>
     journals fs' (jsonlPath p) =
       Some (tx @ JSON_stringify env
          \<lparr>r_cursor = String (c + 1), r_event = ''session_meta'',
           r_data = SessionMeta sid (cwd m) (or_else (model m) (or_else (CODEX_MODEL env) []))
              (or_else (latestThreadId m) []) (active st) (length (the_queue st))\<rparr> @ [nl])"
proof -
  have r: "readSessionMeta (e_fs st) sid = Inr m"
    using v sc by (simp add: readSessionMeta_def)
  have w: "createEventWriter (JSON_parse env) (e_fs st) sid =
      Inr (e_fs st, \<lparr>w_meta = m, w_metaPath = metaPath p, w_jsonlPath = jsonlPath p, w_cursor = c\<rparr>)"
    by (rule createEventWriter_finite [OF v sc lc jr])
  show ?thesis
    using jr
    by (simp add: emitCodexSessionMetaUpdate_def r w Let_def append_effect
        plus1_safe [OF b1 b2] commit_effect)
      (rule exI, intro conjI, rule refl, simp_all)
qed

lemma model_command:
  assumes v: "getSessionPaths sid = Inr p"
    and sc: "sidecars (e_fs st) (metaPath p) = Some m"
    and jr: "journals (e_fs st) (jsonlPath p) = Some tx"
    and lc: "lastCursor m = Some c0" and b1: "- (2 ^ 53) \<le> c0" and b2: "c0 + 7 \<le> 2 ^ 53"
    and ne: "content \<noteq> []" and cmd: "startsWith (trim content) ''/model''"
  shows "\<exists>fs'. submit env sid st content imagePath =
       (st\<lparr>queue := Some (the_queue st), nextId := nextId st + 2, e_fs := fs'\<rparr>,
        Accepted (nextId st)) \<and>
     sidecars fs' (metaPath p) =
       Some (m\<lparr>lastMessagePreview := slice_to 120 content, messageCount := c0 + 6,
               lastCursor := Some (c0 + 7)\<rparr>) \<and>
     journals fs' (jsonlPath p) =
       Some (tx @ render (JSON_stringify env) (records_of
         [(c0 + 1, ''message_start'', MessageStart (nextId st) (c0 + 1) User sid),
          (c0 + 2, ''content_block'', ContentBlock (nextId st) 0 (TextBlock (content @
             (if imagePath \<noteq> [] then [nl, nl] @ ''[Attached image: '' @ imagePath @ '']''
              else [])))),
          (c0 + 3, ''message_end'', MessageEnd (nextId st) EndTurn),
          (c0 + 4, ''message_start'', MessageStart (nextId st + 1) (c0 + 4) Assistant sid),
          (c0 + 5, ''content_block'', ContentBlock (nextId st + 1) 0
             (TextBlock (snd (commandReply env sid (e_fs st) m (trim content))))),
          (c0 + 6, ''message_end'', MessageEnd (nextId st + 1) EndTurn),
          (c0 + 7, ''session_meta'',
             SessionMeta sid (cwd m) (or_else (model m) (or_else (CODEX_MODEL env) []))
               (or_else (latestThreadId m) []) (active st) (length (the_queue st)))]))"
proof -
  let ?S = "JSON_stringify env"
  have m: "readSessionMeta (e_fs st) sid = Inr m"
    using v sc by (simp add: readSessionMeta_def)
  define w0 where "w0 = \<lparr>w_meta = m, w_metaPath = metaPath p, w_jsonlPath = jsonlPath p, w_cursor = c0\<rparr>"
  have w0: "createEventWriter (JSON_parse env) (e_fs st) sid = Inr (e_fs st, w0)"
    unfolding w0_def by (rule createEventWriter_finite [OF v sc lc jr])
  have wj: "w_jsonlPath w0 = jsonlPath p" "w_metaPath w0 = metaPath p" "w_cursor w0 = c0"
    "w_meta w0 = m"
    by (simp_all add: w0_def)
  define prompt where "prompt = content @
      (if imagePath \<noteq> [] then [nl, nl] @ ''[Attached image: '' @ imagePath @ '']'' else [])"
  define uid where "uid = nextId st"
  define d1 where "d1 = MessageStart uid (plus1 (cursor_or_0 (w_meta w0))) User sid"
  define d2 where "d2 = ContentBlock uid 0 (TextBlock prompt)"
  define d3 where "d3 = MessageEnd uid EndTurn"
  have d1': "d1 = MessageStart uid (c0 + 1) User sid"
    using b1 b2 by (simp add: d1_def wj cursor_or_0_def lc plus1_safe)
  obtain fs1 w1 c1 where a1: "append ?S (e_fs st) w0 ''message_start'' d1 = (fs1, w1, c1)"
    by (cases "append ?S (e_fs st) w0 ''message_start'' d1") auto
  from append_facts [OF a1, of tx] jr b1 b2
  have f1: "journals fs1 (jsonlPath p) =
      Some (tx @ ?S \<lparr>r_cursor = String (c0 + 1), r_event = ''message_start'', r_data = d1\<rparr> @ [nl])"
    "sidecars fs1 = sidecars (e_fs st)" "w1 = w0\<lparr>w_cursor := c0 + 1\<rparr>" "c1 = c0 + 1"
    by (simp_all add: wj add.commute)
  obtain fs2 w2 c2 where a2: "append ?S fs1 w1 ''content_block'' d2 = (fs2, w2, c2)"
    by (cases "append ?S fs1 w1 ''content_block'' d2") auto
  from append_facts [OF a2, of "tx @ ?S \<lparr>r_cursor = String (c0 + 1), r_event = ''message_start'', r_data = d1\<rparr> @ [nl]"]
    f1 b1 b2
  have f2: "journals fs2 (jsonlPath p) =
      Some (tx @ ?S \<lparr>r_cursor = String (c0 + 1), r_event = ''message_start'', r_data = d1\<rparr> @ [nl] @
            ?S \<lparr>r_cursor = String (c0 + 2), r_event = ''content_block'', r_data = d2\<rparr> @ [nl])"
    "sidecars fs2 = sidecars (e_fs st)" "w2 = w0\<lparr>w_cursor := c0 + 2\<rparr>" "c2 = c0 + 2"
    by (simp_all add: wj add.commute)
  obtain fs3 w3 c3 where a3: "append ?S fs2 w2 ''message_end'' d3 = (fs3, w3, c3)"
    by (cases "append ?S fs2 w2 ''message_end'' d3") auto
  from append_facts [OF a3, of "tx @ ?S \<lparr>r_cursor = String (c0 + 1), r_event = ''message_start'', r_data = d1\<rparr> @ [nl] @
            ?S \<lparr>r_cursor = String (c0 + 2), r_event = ''content_block'', r_data = d2\<rparr> @ [nl]"]
    f2 b1 b2
  have f3: "journals fs3 (jsonlPath p) =
      Some (tx @ ?S \<lparr>r_cursor = String (c0 + 1), r_event = ''message_start'', r_data = d1\<rparr> @ [nl] @
            ?S \<lparr>r_cursor = String (c0 + 2), r_event = ''content_block'', r_data = d2\<rparr> @ [nl] @
            ?S \<lparr>r_cursor = String (c0 + 3), r_event = ''message_end'', r_data = d3\<rparr> @ [nl])"
    "sidecars fs3 = sidecars (e_fs st)" "w3 = w0\<lparr>w_cursor := c0 + 3\<rparr>" "c3 = c0 + 3"
    by (simp_all add: wj add.commute)
  define U :: "meta \<Rightarrow> meta" where
    "U = (\<lambda>m. m\<lparr>lastMessagePreview := slice_to 120 content, messageCount := c3\<rparr>)"
  obtain fs4 w4 where cm: "commit fs3 w3 U = (fs4, w4)"
    by (cases "commit fs3 w3 U") auto
  define m4 where "m4 = m\<lparr>lastCursor := Some (c0 + 3), lastMessagePreview := slice_to 120 content,
      messageCount := c0 + 3\<rparr>"
  from commit_facts [OF cm] f3
  have f4: "journals fs4 = journals fs3" "w4 = w0\<lparr>w_cursor := c0 + 3, w_meta := m4\<rparr>"
    by (simp_all add: wj U_def m4_def)
  define aid where "aid = Suc (nextId st)"
  define d5 where "d5 = MessageStart aid (plus1 c3) Assistant sid"
  have d5': "d5 = MessageStart aid (c0 + 4) Assistant sid"
    using b1 b2 by (simp add: d5_def f3 plus1_safe)
  obtain fs5 w5 c5 where a5: "append ?S fs4 w4 ''message_start'' d5 = (fs5, w5, c5)"
    by (cases "append ?S fs4 w4 ''message_start'' d5") auto
  let ?t3 = "tx @ ?S \<lparr>r_cursor = String (c0 + 1), r_event = ''message_start'', r_data = d1\<rparr> @ [nl] @
            ?S \<lparr>r_cursor = String (c0 + 2), r_event = ''content_block'', r_data = d2\<rparr> @ [nl] @
            ?S \<lparr>r_cursor = String (c0 + 3), r_event = ''message_end'', r_data = d3\<rparr> @ [nl]"
  from append_facts [OF a5, of ?t3] f3 f4 b1 b2
  have f5: "journals fs5 (jsonlPath p) =
      Some (?t3 @ ?S \<lparr>r_cursor = String (c0 + 4), r_event = ''message_start'', r_data = d5\<rparr> @ [nl])"
    "w5 = w0\<lparr>w_cursor := c0 + 4, w_meta := m4\<rparr>" "c5 = c0 + 4"
    by (simp_all add: wj add.commute)
  obtain fs6 reply where cr: "commandReply env sid fs5 m (trim content) = (fs6, reply)"
    by (cases "commandReply env sid fs5 m (trim content)") auto
  have f6: "journals fs6 = journals fs5"
    using commandReply_journals [of env sid fs5 m "trim content"] cr by simp
  have rp: "reply = snd (commandReply env sid (e_fs st) m (trim content))"
    using commandReply_text [of env sid fs5 m "trim content" "e_fs st"] cr by simp
  define d7 where "d7 = ContentBlock aid 0 (TextBlock reply)"
  define d8 where "d8 = MessageEnd aid EndTurn"
  obtain fs7 w7 c7 where a7: "append ?S fs6 w5 ''content_block'' d7 = (fs7, w7, c7)"
    by (cases "append ?S fs6 w5 ''content_block'' d7") auto
  let ?t5 = "?t3 @ ?S \<lparr>r_cursor = String (c0 + 4), r_event = ''message_start'', r_data = d5\<rparr> @ [nl]"
  from append_facts [OF a7, of ?t5] f5 f6 b1 b2
  have f7: "journals fs7 (jsonlPath p) =
      Some (?t5 @ ?S \<lparr>r_cursor = String (c0 + 5), r_event = ''content_block'', r_data = d7\<rparr> @ [nl])"
    "w7 = w0\<lparr>w_cursor := c0 + 5, w_meta := m4\<rparr>" "c7 = c0 + 5"
    by (simp_all add: wj add.commute)
  obtain fs8 w8 c8 where a8: "append ?S fs7 w7 ''message_end'' d8 = (fs8, w8, c8)"
    by (cases "append ?S fs7 w7 ''message_end'' d8") auto
  let ?t7 = "?t5 @ ?S \<lparr>r_cursor = String (c0 + 5), r_event = ''content_block'', r_data = d7\<rparr> @ [nl]"
  from append_facts [OF a8, of ?t7] f7 b1 b2
  have f8: "journals fs8 (jsonlPath p) =
      Some (?t7 @ ?S \<lparr>r_cursor = String (c0 + 6), r_event = ''message_end'', r_data = d8\<rparr> @ [nl])"
    "w8 = w0\<lparr>w_cursor := c0 + 6, w_meta := m4\<rparr>" "c8 = c0 + 6"
    by (simp_all add: wj add.commute)
  define U2 :: "meta \<Rightarrow> meta" where "U2 = (\<lambda>m. m\<lparr>messageCount := c8\<rparr>)"
  obtain fs9 w9 where cm9: "commit fs8 w8 U2 = (fs9, w9)"
    by (cases "commit fs8 w8 U2") auto
  define m9 where "m9 = m\<lparr>lastCursor := Some (c0 + 6), lastMessagePreview := slice_to 120 content,
      messageCount := c0 + 6\<rparr>"
  let ?t8 = "?t7 @ ?S \<lparr>r_cursor = String (c0 + 6), r_event = ''message_end'', r_data = d8\<rparr> @ [nl]"
  from commit_facts [OF cm9] f8
  have f9: "sidecars fs9 (metaPath p) = Some m9" "journals fs9 (jsonlPath p) = Some ?t8"
    by (simp_all add: wj U2_def m9_def m4_def)
  define s9 where "s9 = st\<lparr>queue := Some (the_queue st), nextId := nextId st + 2, e_fs := fs9\<rparr>"
  have isc: "isGatewayCommand (trim content)" using cmd by (simp add: isGatewayCommand_def)
  have res: "submit env sid st content imagePath =
      (emitCodexSessionMetaUpdate env sid s9, Accepted (nextId st))"
    using ne m w0 a1 a2 a3 cm isc a5 cr a7 a8 cm9
    unfolding prompt_def uid_def d1_def d2_def d3_def U_def aid_def d5_def d7_def d8_def U2_def
      s9_def
    by (simp add: submit_def Let_def numeral_2_eq_2)
  have l9: "lastCursor m9 = Some (c0 + 6)" by (simp add: m9_def)
  from emit_facts [OF v _ _ l9, of s9 ?t8 env] f9 b1 b2
  obtain fs' where e: "emitCodexSessionMetaUpdate env sid s9 = s9\<lparr>e_fs := fs'\<rparr>"
    and sf: "sidecars fs' (metaPath p) = Some (m9\<lparr>lastCursor := Some (c0 + 6 + 1)\<rparr>)"
    and jf: "journals fs' (jsonlPath p) =
       Some (?t8 @ ?S
          \<lparr>r_cursor = String (c0 + 6 + 1), r_event = ''session_meta'',
           r_data = SessionMeta sid (cwd m9) (or_else (model m9) (or_else (CODEX_MODEL env) []))
              (or_else (latestThreadId m9) []) (active s9) (length (the_queue s9))\<rparr> @ [nl])"
    by (auto simp: s9_def)
  have 1: "submit env sid st content imagePath =
       (st\<lparr>queue := Some (the_queue st), nextId := nextId st + 2, e_fs := fs'\<rparr>,
        Accepted (nextId st))"
    unfolding res e by (simp add: s9_def)
  have 2: "sidecars fs' (metaPath p) =
       Some (m\<lparr>lastMessagePreview := slice_to 120 content, messageCount := c0 + 6,
               lastCursor := Some (c0 + 7)\<rparr>)"
    unfolding sf by (simp add: m9_def add.commute)
  have 3: "journals fs' (jsonlPath p) =
       Some (tx @ render (JSON_stringify env) (records_of
         [(c0 + 1, ''message_start'', MessageStart (nextId st) (c0 + 1) User sid),
          (c0 + 2, ''content_block'', ContentBlock (nextId st) 0 (TextBlock (content @
             (if imagePath \<noteq> [] then [nl, nl] @ ''[Attached image: '' @ imagePath @ '']''
              else [])))),
          (c0 + 3, ''message_end'', MessageEnd (nextId st) EndTurn),
          (c0 + 4, ''message_start'', MessageStart (nextId st + 1) (c0 + 4) Assistant sid),
          (c0 + 5, ''content_block'', ContentBlock (nextId st + 1) 0
             (TextBlock (snd (commandReply env sid (e_fs st) m (trim content))))),
          (c0 + 6, ''message_end'', MessageEnd (nextId st + 1) EndTurn),
          (c0 + 7, ''session_meta'',
             SessionMeta sid (cwd m) (or_else (model m) (or_else (CODEX_MODEL env) []))
               (or_else (latestThreadId m) []) (active st) (length (the_queue st)))]))"
    unfolding jf d1' d5' d2_def d3_def d7_def d8_def
    by (simp add: render_def records_of_def m9_def s9_def the_queue_def uid_def aid_def
        prompt_def rp add.commute)
  from 1 2 3 show ?thesis by blast
qed

text \<open>
  C10. A message whose trimmed content starts with \<^verbatim>\<open>/model\<close> (so also \<^verbatim>\<open>/models\<close>,
  \<^verbatim>\<open>/model <name>\<close> and a string such as \<^verbatim>\<open>/modelfoo\<close>) is handled by the submit
  itself, for a session whose sidecar holds a cursor \<open>c0\<close> (with seven cursors to go
  before \<open>2^53\<close>): the submit is accepted with the identifier of the user message; the
  queue holds the same turns as before and no turn is started (the turns, the child, the
  finalizer and the active flag are as before); the journal grows by exactly seven
  records, namely the user message (start, text block, end), an assistant message
  (start, one text block with the reply, end with \<open>end_turn\<close>) and a \<open>session_meta\<close> update; and
  the sidecar is committed, with the cursor of the last record as \<open>lastCursor\<close> and the
  cursor of the assistant's \<open>message_end\<close> as \<open>messageCount\<close>.
\<close>

theorem model_command_inline:
  assumes "getSessionPaths sid = Inr p"
    and "sidecars (e_fs st) (metaPath p) = Some m"
    and "journals (e_fs st) (jsonlPath p) = Some tx"
    and "lastCursor m = Some c0" and "- (2 ^ 53) \<le> c0" and "c0 + 7 \<le> 2 ^ 53"
    and "content \<noteq> []" and "startsWith (trim content) ''/model''"
    and "submit env sid st content imagePath = (st', r)"
  shows "r = Accepted (nextId st) \<and>
     the_queue st' = the_queue st \<and> runs st' = runs st \<and> proc st' = proc st \<and>
     finalize st' = finalize st \<and> active st' = active st \<and>
     journal_of sid st' =
       tx @ render (JSON_stringify env) (records_of
         [(c0 + 1, ''message_start'', MessageStart (nextId st) (c0 + 1) User sid),
          (c0 + 2, ''content_block'', ContentBlock (nextId st) 0 (TextBlock (content @
             (if imagePath \<noteq> [] then [nl, nl] @ ''[Attached image: '' @ imagePath @ '']''
              else [])))),
          (c0 + 3, ''message_end'', MessageEnd (nextId st) EndTurn),
          (c0 + 4, ''message_start'', MessageStart (nextId st + 1) (c0 + 4) Assistant sid),
          (c0 + 5, ''content_block'', ContentBlock (nextId st + 1) 0
             (TextBlock (snd (commandReply env sid (e_fs st) m (trim content))))),
          (c0 + 6, ''message_end'', MessageEnd (nextId st + 1) EndTurn),
          (c0 + 7, ''session_meta'',
             SessionMeta sid (cwd m) (or_else (model m) (or_else (CODEX_MODEL env) []))
               (or_else (latestThreadId m) []) (active st) (length (the_queue st)))]) \<and>
     map_option lastCursor (sidecars (e_fs st') (metaPath p)) = Some (Some (c0 + 7)) \<and>
     map_option messageCount (sidecars (e_fs st') (metaPath p)) = Some (c0 + 6)"
proof -
  from model_command [OF assms(1-8), of env imagePath] assms(9)
  obtain fs' where 1: "st' = st\<lparr>queue := Some (the_queue st), nextId := nextId st + 2, e_fs := fs'\<rparr>"
    and r: "r = Accepted (nextId st)"
    and 2: "sidecars fs' (metaPath p) =
       Some (m\<lparr>lastMessagePreview := slice_to 120 content, messageCount := c0 + 6,
               lastCursor := Some (c0 + 7)\<rparr>)"
    and 3: "journals fs' (jsonlPath p) =
       Some (tx @ render (JSON_stringify env) (records_of
         [(c0 + 1, ''message_start'', MessageStart (nextId st) (c0 + 1) User sid),
          (c0 + 2, ''content_block'', ContentBlock (nextId st) 0 (TextBlock (content @
             (if imagePath \<noteq> [] then [nl, nl] @ ''[Attached image: '' @ imagePath @ '']''
              else [])))),
          (c0 + 3, ''message_end'', MessageEnd (nextId st) EndTurn),
          (c0 + 4, ''message_start'', MessageStart (nextId st + 1) (c0 + 4) Assistant sid),
          (c0 + 5, ''content_block'', ContentBlock (nextId st + 1) 0
             (TextBlock (snd (commandReply env sid (e_fs st) m (trim content))))),
          (c0 + 6, ''message_end'', MessageEnd (nextId st + 1) EndTurn),
          (c0 + 7, ''session_meta'',
             SessionMeta sid (cwd m) (or_else (model m) (or_else (CODEX_MODEL env) []))
               (or_else (latestThreadId m) []) (active st) (length (the_queue st)))]))"
    by auto
  have e: "e_fs st' = fs'" by (simp add: 1)
  have q: "the_queue st' = the_queue st" "runs st' = runs st" "proc st' = proc st"
    "finalize st' = finalize st" "active st' = active st"
    by (simp_all add: 1 the_queue_def)
  have j: "journal_of sid st' = jtext p fs'"
    using journal_of_jtext [OF assms(1), of st'] by (simp add: e)
  show ?thesis
    unfolding j e using r q by (simp add: 2 jtext_def 3)
qed

text \<open>
  The theorem at a fresh session and the message \<^verbatim>\<open>/modelfoo\<close>: the reply names the
  current model and the two commands.
\<close>

theorem model_command_inline_witness:
  "snd (submit example_env example_sid example_session ''/modelfoo'' []) = Accepted 0 \<and>
   the_queue (fst (submit example_env example_sid example_session ''/modelfoo'' [])) = [] \<and>
   runs (fst (submit example_env example_sid example_session ''/modelfoo'' [])) = [] \<and>
   journal_of example_sid (fst (submit example_env example_sid example_session ''/modelfoo'' [])) =
     render stringify_event (records_of
       [(1, ''message_start'', MessageStart 0 1 User example_sid),
        (2, ''content_block'', ContentBlock 0 0 (TextBlock ''/modelfoo'')),
        (3, ''message_end'', MessageEnd 0 EndTurn),
        (4, ''message_start'', MessageStart 1 4 Assistant example_sid),
        (5, ''content_block'', ContentBlock 1 0
           (TextBlock (''Current model: gpt-5.2-codex'' @ [nl, nl] @
                       ''Use: /model <name> or /models''))),
        (6, ''message_end'', MessageEnd 1 EndTurn),
        (7, ''session_meta'', SessionMeta example_sid ''/tmp'' ''gpt-5.2-codex'' [] False 0)]) \<and>
   map_option lastCursor
     (sidecars (e_fs (fst (submit example_env example_sid example_session ''/modelfoo'' [])))
        (metaPath example_paths)) = Some (Some 7)"
proof -
  let ?m = "\<lparr>lastCursor = Some 0, model = ''gpt-5.2-codex'', cwd = ''/tmp'',
             messageCount = 0, lastMessagePreview = [], latestThreadId = []\<rparr>"
  have 2: "sidecars (e_fs example_session) (metaPath example_paths) = Some ?m"
    by (simp add: example_session_eq)
  have 3: "journals (e_fs example_session) (jsonlPath example_paths) = Some []"
    by (simp add: example_session_eq)
  have 4: "lastCursor ?m = Some 0" by simp
  have 5: "- (2 ^ 53) \<le> (0 :: int)" by simp
  have 6: "(0 :: int) + 7 \<le> 2 ^ 53" by simp
  have 7: "''/modelfoo'' \<noteq> []" by simp
  have t: "trim ''/modelfoo'' = ''/modelfoo''" by (simp add: trim_def isWhiteSpace_def)
  have 8: "startsWith (trim ''/modelfoo'') ''/model''" by (simp add: t)
  have 9: "submit example_env example_sid example_session ''/modelfoo'' [] =
      (fst (submit example_env example_sid example_session ''/modelfoo'' []),
       snd (submit example_env example_sid example_session ''/modelfoo'' []))"
    by simp
  have w: "words ''/modelfoo'' = [''/modelfoo'']"
    by (simp add: words_def isWhiteSpace_def)
  have rp: "snd (commandReply example_env example_sid (e_fs example_session) ?m ''/modelfoo'') =
      ''Current model: gpt-5.2-codex'' @ [nl, nl] @ ''Use: /model <name> or /models''"
    by (simp add: commandReply_def Let_def w currentModel_def or_else_def)
  have n: "nextId example_session = 0" "the_queue example_session = []" "runs example_session = []"
    "active example_session = False"
    by (simp_all add: example_session_eq the_queue_def)
  have ev: "JSON_stringify example_env = stringify_event"
    "CODEX_MODEL example_env = ''gpt-5.2-codex''"
    by (simp_all add: example_env_def)
  from model_command_inline [OF example_paths 2 3 4 5 6 7 8 9]
  show ?thesis
    by (simp add: t rp n or_else_def ev)
qed

end
